theory Spec2Isabelle
  imports Main
begin

section \<open>Files and the writes of the two tools\<close>

text \<open>
  The script \<^verbatim>\<open>crew-review.py\<close> writes its two output files through Python's
  \<^verbatim>\<open>open\<close> (markdown) and through \<^verbatim>\<open>DataFrame.to_csv\<close> (CSV). A file system is a
  map from paths to contents together with the paths on which \<^verbatim>\<open>open\<close> raises
  \<^verbatim>\<open>OSError\<close> (missing directory, permissions): the operating system decides that, not
  the script.
\<close>

record filesystem =
  files :: "string \<rightharpoonup> string"
  refused :: "string \<Rightarrow> bool"

datatype error = OSError string

datatype mode = W | A

text \<open>
  What reaches a file, one operation at a time: \<^verbatim>\<open>open(p, 'w')\<close> creates or truncates,
  \<^verbatim>\<open>open(p, 'a')\<close> creates or keeps, and a write appends its characters one by one
  (the finest grain at which a failing or interrupted write can stop).
\<close>

datatype io_op = Open string mode | Put string char

fun io_step :: "io_op \<Rightarrow> (string \<rightharpoonup> string) \<Rightarrow> (string \<rightharpoonup> string)" where
  "io_step (Open p W) fs = fs(p \<mapsto> [])"
| "io_step (Open p A) fs = (case fs p of None \<Rightarrow> fs(p \<mapsto> []) | Some old \<Rightarrow> fs)"
| "io_step (Put p c) fs = fs(p \<mapsto> (case fs p of None \<Rightarrow> [c] | Some old \<Rightarrow> old @ [c]))"

definition f_write :: "string \<Rightarrow> string \<Rightarrow> io_op list" where
  "f_write p s = map (Put p) s"

definition run_ops :: "io_op list \<Rightarrow> (string \<rightharpoonup> string) \<Rightarrow> (string \<rightharpoonup> string)" where
  "run_ops ops fs = fold io_step ops fs"

text \<open>A run that is cut off (a failing write, a kill) after its first \<open>k\<close> operations.\<close>

definition interrupted_after :: "nat \<Rightarrow> io_op list \<Rightarrow> (string \<rightharpoonup> string) \<Rightarrow> (string \<rightharpoonup> string)" where
  "interrupted_after k ops fs = run_ops (take k ops) fs"

section \<open>The table: \<^verbatim>\<open>pd.DataFrame(data)\<close>\<close>

text \<open>
  A record is a Python dict in insertion order: an association list of keys and values.
  A frame has its column names and one row per record; a cell is \<open>None\<close> where the
  record has no such key (pandas' NaN).
\<close>

type_synonym 'v pyrecord = "(string \<times> 'v) list"

record 'v dataframe =
  columns :: "string list"
  rows :: "'v option list list"

text \<open>
  Modelled from the spec: \<^verbatim>\<open>pandas.DataFrame\<close> is a third-party library and is not under
  \<^verbatim>\<open>src/\<close>. The spec's Table is "an ordered sequence of column names (union of all
  Record keys, first-seen order) and an ordered sequence of rows (one per Record, missing
  fields rendered as an explicit null marker)"; pandas builds it from a list of dicts in
  this way: it walks the keys of all records in order, keeping each key the first time
  it is seen, and then looks every column up in every record.
\<close>

fun fast_unique :: "string list \<Rightarrow> string list \<Rightarrow> string list" where
  "fast_unique uniques [] = uniques"
| "fast_unique uniques (k # ks) =
     fast_unique (if k \<in> set uniques then uniques else uniques @ [k]) ks"

definition dicts_to_array :: "'v pyrecord list \<Rightarrow> string list \<Rightarrow> 'v option list list" where
  "dicts_to_array data cols = map (\<lambda>r. map (\<lambda>c. map_of r c) cols) data"

definition DataFrame :: "'v pyrecord list \<Rightarrow> 'v dataframe" where
  "DataFrame data =
     (let cols = fast_unique [] (concat (map (map fst) data))
      in \<lparr>columns = cols, rows = dicts_to_array data cols\<rparr>)"

text \<open>
  The spec's words for the columns, "the ordered union of keys across R's records in
  first-seen order": of the keys of all records in order, each one where it first occurs.
\<close>

definition first_seen :: "'a list \<Rightarrow> 'a list" where
  "first_seen ks = rev (remdups (rev ks))"

section \<open>The two writer tools\<close>

definition newline :: char where
  "newline = CHR 0x0A"

text \<open>
  \<^verbatim>\<open>MarkdownTableTool._run(data, file_name, append)\<close>. The text of the table comes from
  \<^verbatim>\<open>df.to_markdown(index=False)\<close>, a library call taken as the parameter
  \<open>to_markdown\<close>. The logger calls write to the log only and are left out;
  \<open>append_flag\<close> is the argument \<^verbatim>\<open>append\<close>.
\<close>

definition MarkdownTableTool_ops :: "string \<Rightarrow> string \<Rightarrow> bool \<Rightarrow> io_op list" where
  "MarkdownTableTool_ops markdown_table file_name append_flag =
     [Open file_name (if append_flag then A else W)]
     @ (if append_flag then f_write file_name [newline, newline] else [])
     @ f_write file_name markdown_table"

definition MarkdownTableTool_run ::
  "('v dataframe \<Rightarrow> string) \<Rightarrow> filesystem \<Rightarrow> 'v pyrecord list \<Rightarrow> string \<Rightarrow> bool
   \<Rightarrow> filesystem \<times> (error + string)" where
  "MarkdownTableTool_run to_markdown fs data file_name append_flag =
     (let df = DataFrame data;
          markdown_table = to_markdown df
      in if refused fs file_name then (fs, Inl (OSError file_name))
         else (fs\<lparr>files := run_ops (MarkdownTableTool_ops markdown_table file_name append_flag) (files fs)\<rparr>,
               Inr (''Markdown table generated and saved as '' @ file_name)))"

text \<open>
  \<^verbatim>\<open>CSVWriterTool._run(data, file_name)\<close>. \<^verbatim>\<open>df.to_csv(file_name, index=False)\<close> opens the
  path itself, in pandas' default mode \<^verbatim>\<open>'w'\<close>, and writes the text of the frame, the
  parameter \<open>to_csv\<close>.
\<close>

definition CSVWriterTool_ops :: "string \<Rightarrow> string \<Rightarrow> io_op list" where
  "CSVWriterTool_ops csv_text file_name = [Open file_name W] @ f_write file_name csv_text"

definition CSVWriterTool_run ::
  "('v dataframe \<Rightarrow> string) \<Rightarrow> filesystem \<Rightarrow> 'v pyrecord list \<Rightarrow> string
   \<Rightarrow> filesystem \<times> (error + string)" where
  "CSVWriterTool_run to_csv fs data file_name =
     (let df = DataFrame data
      in if refused fs file_name then (fs, Inl (OSError file_name))
         else (fs\<lparr>files := run_ops (CSVWriterTool_ops (to_csv df) file_name) (files fs)\<rparr>,
               Inr (''CSV file generated and saved as '' @ file_name)))"

section \<open>The text of a frame: markdown\<close>

text \<open>Python's \<^verbatim>\<open>sep.join(xs)\<close>.\<close>

fun join :: "string \<Rightarrow> string list \<Rightarrow> string" where
  "join sep [] = []"
| "join sep [x] = x"
| "join sep (x # y # ys) = x @ sep @ join sep (y # ys)"

text \<open>
  Modelled from the spec: \<^verbatim>\<open>DataFrame.to_markdown\<close> (pandas, which hands the frame to
  the tabulate library's \<^verbatim>\<open>pipe\<close> format) is not under \<^verbatim>\<open>src/\<close>. The spec's markdown
  target is "header row of column names, separator row, one row per record", and of the
  escaping of pipes it says "a correctness requirement the source lacks": cell text goes
  out as it is. The layout below is tabulate's for columns of text: a column is as wide
  as its widest cell and at least two wider than its header, cells are padded on the
  right, a missing cell reads \<^verbatim>\<open>nan\<close>, and a frame with neither columns nor rows
  gives the empty text. (Columns that hold only numbers are aligned to the right by
  tabulate; \<open>tabulate_text\<close> below says where this layout is tabulate's.)
\<close>

definition md_cell :: "string option \<Rightarrow> string" where
  "md_cell c = (case c of None \<Rightarrow> ''nan'' | Some s \<Rightarrow> s)"

definition ljust :: "nat \<Rightarrow> string \<Rightarrow> string" where
  "ljust w s = s @ replicate (w - length s) CHR '' ''"

definition column_cells :: "string list list \<Rightarrow> nat \<Rightarrow> string list" where
  "column_cells body j = map (\<lambda>r. r ! j) (filter (\<lambda>r. j < length r) body)"

definition column_width :: "string \<Rightarrow> string list \<Rightarrow> nat" where
  "column_width h cells = fold max (map length cells) (length h + 2)"

definition pipe_row :: "nat list \<Rightarrow> string list \<Rightarrow> string" where
  "pipe_row ws cells =
     ''|'' @ join ''|'' (map (\<lambda>(w, c). '' '' @ ljust w c @ '' '') (zip ws cells)) @ ''|''"

definition pipe_line :: "nat list \<Rightarrow> string" where
  "pipe_line ws = ''|'' @ join ''|'' (map (\<lambda>w. '':'' @ replicate (w + 1) CHR ''-'') ws) @ ''|''"

definition md_widths :: "string list \<Rightarrow> string list list \<Rightarrow> nat list" where
  "md_widths headers body =
     map (\<lambda>j. column_width (headers ! j) (column_cells body j)) [0..<length headers]"

definition md_lines :: "string dataframe \<Rightarrow> string list" where
  "md_lines df =
     (let headers = columns df;
          body = map (map md_cell) (rows df);
          ws = md_widths headers body
      in if headers = [] \<and> body = [] then []
         else pipe_row ws headers # pipe_line ws # map (pipe_row ws) body)"

definition to_markdown :: "string dataframe \<Rightarrow> string" where
  "to_markdown df = join [newline] (md_lines df)"

text \<open>
  Where the layout above is tabulate's: every header and cell is printable ASCII with no
  blank at either end, and every column has a cell that tabulate reads as text, not as a
  number or a boolean (a character that no Python number is written with, and not the
  words \<^verbatim>\<open>True\<close> and \<^verbatim>\<open>False\<close>).
\<close>

definition is_printable :: "char \<Rightarrow> bool" where
  "is_printable c = ((32::nat) \<le> of_char c \<and> of_char c \<le> (126::nat))"

definition plain :: "string \<Rightarrow> bool" where
  "plain s = (list_all is_printable s \<and> (s = [] \<or> (hd s \<noteq> CHR '' '' \<and> last s \<noteq> CHR '' '')))"

definition reads_as_text :: "string \<Rightarrow> bool" where
  "reads_as_text s =
     (s \<noteq> ''True'' \<and> s \<noteq> ''False'' \<and>
      list_ex (\<lambda>c. c \<notin> set ''0123456789+-._eEiInNfFtTyYaA '') s)"

definition tabulate_text :: "string dataframe \<Rightarrow> bool" where
  "tabulate_text df =
     ((columns df \<noteq> [] \<or> rows df = []) \<and>
      list_all plain (columns df) \<and>
      list_all (\<lambda>r. length r = length (columns df) \<and> list_all (\<lambda>c. plain (md_cell c)) r) (rows df) \<and>
      list_all (\<lambda>j. list_ex (\<lambda>r. case r ! j of None \<Rightarrow> False | Some s \<Rightarrow> reads_as_text s) (rows df))
        [0..<length (columns df)])"

text \<open>
  How a markdown table parser (GitHub Flavored Markdown) cuts a row into cells: at every
  pipe that no backslash escapes; the pipes at the two ends of the row are optional and
  bound no cell.
\<close>

fun gfm_split :: "string \<Rightarrow> string \<Rightarrow> string list" where
  "gfm_split cur [] = [cur]"
| "gfm_split cur [c] = (if c = CHR ''|'' then [cur, []] else [cur @ [c]])"
| "gfm_split cur (c # d # cs) =
     (if c = CHR 0x5C \<and> d = CHR ''|'' then gfm_split (cur @ [c, d]) cs
      else if c = CHR ''|'' then cur # gfm_split [] (d # cs)
      else gfm_split (cur @ [c]) (d # cs))"

definition blank :: "string \<Rightarrow> bool" where
  "blank s = list_all (\<lambda>c. c = CHR '' '') s"

definition gfm_row_cells :: "string \<Rightarrow> string list" where
  "gfm_row_cells line =
     (let parts = gfm_split [] line;
          parts1 = (if parts \<noteq> [] \<and> blank (hd parts) then tl parts else parts);
          parts2 = (if parts1 \<noteq> [] \<and> blank (last parts1) then butlast parts1 else parts1)
      in parts2)"

section \<open>The text of a frame: CSV\<close>

text \<open>
  Modelled from the spec: \<^verbatim>\<open>DataFrame.to_csv\<close> (pandas, writing through Python's
  \<^verbatim>\<open>csv.writer\<close>) is not under \<^verbatim>\<open>src/\<close>. The spec's delimited target is "header row of
  column names, one row per record; fields containing the delimiter, quote character, or
  newline must be quoted per standard CSV quoting rules; consistent line-ending
  convention". This is \<^verbatim>\<open>csv.writer\<close> with pandas' defaults: a comma between fields, a
  field with a comma, a double quote, a line feed or a carriage return is put in double
  quotes with its quotes doubled, a row that is one empty field is written as two quotes,
  every row ends with a line feed, and a missing cell is the empty field.
\<close>

definition dquote :: char where
  "dquote = CHR 0x22"

definition csv_special :: "char \<Rightarrow> bool" where
  "csv_special c = (c = CHR '','' \<or> c = dquote \<or> c = CHR 0x0A \<or> c = CHR 0x0D)"

definition csv_escape :: "string \<Rightarrow> string" where
  "csv_escape s = concat (map (\<lambda>c. if c = dquote then [dquote, dquote] else [c]) s)"

definition csv_field :: "string \<Rightarrow> string" where
  "csv_field s = (if list_ex csv_special s then [dquote] @ csv_escape s @ [dquote] else s)"

definition csv_writerow :: "string list \<Rightarrow> string" where
  "csv_writerow row =
     (if row = [[]] then [dquote, dquote] else join '','' (map csv_field row)) @ [newline]"

definition csv_cell :: "string option \<Rightarrow> string" where
  "csv_cell c = (case c of None \<Rightarrow> [] | Some s \<Rightarrow> s)"

definition csv_table :: "string dataframe \<Rightarrow> string list list" where
  "csv_table df = columns df # map (map csv_cell) (rows df)"

definition to_csv :: "string dataframe \<Rightarrow> string" where
  "to_csv df = concat (map csv_writerow (csv_table df))"

text \<open>
  The values of a record are text, whole numbers or null (the spec's Record). pandas,
  which is not under \<^verbatim>\<open>src/\<close>, gives every column of the frame one type before it writes
  it: a column whose values are all numbers is a column of integers, unless a record
  lacks the key or has null there, in which case it is a column of floats; a column with
  any text keeps its values as they are. \<^verbatim>\<open>to_csv\<close> writes an integer in decimal, a float
  that is a whole number with \<^verbatim>\<open>.0\<close> after it, text as it is and nothing for a null or a
  missing value. (A float holds a whole number exactly up to \<^verbatim>\<open>2**53\<close>; \<open>small_numbers\<close>
  says where this is what pandas writes.)
\<close>

datatype pyvalue = Text string | Number int | Null

fun str_nat :: "nat \<Rightarrow> string" where
  "str_nat n =
     (if n < 10 then [''0123456789'' ! n] else str_nat (n div 10) @ [''0123456789'' ! (n mod 10)])"

declare str_nat.simps [simp del]

definition str_int :: "int \<Rightarrow> string" where
  "str_int i = (if i < 0 then ''-'' @ str_nat (nat (- i)) else str_nat (nat i))"

datatype dtype = Int64 | Float64 | Object

definition is_null :: "pyvalue option \<Rightarrow> bool" where
  "is_null c = (c = None \<or> c = Some Null)"

definition is_number :: "pyvalue option \<Rightarrow> bool" where
  "is_number c = (case c of Some (Number n) \<Rightarrow> True | _ \<Rightarrow> False)"

definition dtype_of :: "pyvalue option list \<Rightarrow> dtype" where
  "dtype_of cells =
     (if list_ex is_number cells \<and> list_all (\<lambda>c. is_number c \<or> is_null c) cells
      then (if list_ex is_null cells then Float64 else Int64)
      else Object)"

definition value_text :: "dtype \<Rightarrow> pyvalue option \<Rightarrow> string" where
  "value_text dt c =
     (case c of
        None \<Rightarrow> []
      | Some Null \<Rightarrow> []
      | Some (Text s) \<Rightarrow> s
      | Some (Number n) \<Rightarrow> (if dt = Float64 then str_int n @ ''.0'' else str_int n))"

definition values_to_text :: "pyvalue dataframe \<Rightarrow> string dataframe" where
  "values_to_text df =
     \<lparr>columns = columns df,
      rows = map (\<lambda>r. map (\<lambda>j. Some (value_text (dtype_of (map (\<lambda>r'. r' ! j) (rows df))) (r ! j)))
                        [0..<length (columns df)])
                 (rows df)\<rparr>"

definition to_csv_values :: "pyvalue dataframe \<Rightarrow> string" where
  "to_csv_values df = to_csv (values_to_text df)"

definition small_numbers :: "pyvalue pyrecord list \<Rightarrow> bool" where
  "small_numbers data =
     list_all (list_all (\<lambda>(k, v). case v of Number n \<Rightarrow> \<bar>n\<bar> \<le> 9007199254740992 | _ \<Rightarrow> True)) data"

text \<open>
  A standard CSV parser, as a machine over the characters with the states of Python's
  \<^verbatim>\<open>csv.reader\<close>: a comma ends a field, a line feed or carriage return outside quotes
  ends a record (a line feed after a carriage return is swallowed), an empty line is a
  record with no field, inside quotes everything is kept and a doubled quote is one
  quote.
\<close>

datatype csv_state =
  START_RECORD | START_FIELD | IN_FIELD | IN_QUOTED_FIELD | QUOTE_IN_QUOTED_FIELD | EAT_CRNL

datatype csv_action =
  Add csv_state | Skip csv_state | EndField csv_state | EndRecord csv_state | EmptyRecord csv_state

fun csv_start_field :: "char \<Rightarrow> csv_action" where
  "csv_start_field c =
     (if c = CHR 0x0A then EndRecord START_RECORD
      else if c = CHR 0x0D then EndRecord EAT_CRNL
      else if c = dquote then Skip IN_QUOTED_FIELD
      else if c = CHR '','' then EndField START_FIELD
      else Add IN_FIELD)"

fun csv_start_record :: "char \<Rightarrow> csv_action" where
  "csv_start_record c =
     (if c = CHR 0x0A then EmptyRecord START_RECORD
      else if c = CHR 0x0D then EmptyRecord EAT_CRNL
      else csv_start_field c)"

fun csv_step :: "csv_state \<Rightarrow> char \<Rightarrow> csv_action" where
  "csv_step START_RECORD c = csv_start_record c"
| "csv_step START_FIELD c = csv_start_field c"
| "csv_step IN_FIELD c =
     (if c = CHR 0x0A then EndRecord START_RECORD
      else if c = CHR 0x0D then EndRecord EAT_CRNL
      else if c = CHR '','' then EndField START_FIELD
      else Add IN_FIELD)"
| "csv_step IN_QUOTED_FIELD c =
     (if c = dquote then Skip QUOTE_IN_QUOTED_FIELD else Add IN_QUOTED_FIELD)"
| "csv_step QUOTE_IN_QUOTED_FIELD c =
     (if c = dquote then Add IN_QUOTED_FIELD
      else if c = CHR '','' then EndField START_FIELD
      else if c = CHR 0x0A then EndRecord START_RECORD
      else if c = CHR 0x0D then EndRecord EAT_CRNL
      else Add IN_FIELD)"
| "csv_step EAT_CRNL c = (if c = CHR 0x0A then Skip START_RECORD else csv_start_record c)"

fun csv_reader :: "csv_state \<Rightarrow> string \<Rightarrow> string list \<Rightarrow> string \<Rightarrow> string list list" where
  "csv_reader st fld flds [] =
     (if st = START_RECORD \<or> st = EAT_CRNL then [] else [flds @ [fld]])"
| "csv_reader st fld flds (c # cs) =
     (case csv_step st c of
        Add st' \<Rightarrow> csv_reader st' (fld @ [c]) flds cs
      | Skip st' \<Rightarrow> csv_reader st' fld flds cs
      | EndField st' \<Rightarrow> csv_reader st' [] (flds @ [fld]) cs
      | EndRecord st' \<Rightarrow> (flds @ [fld]) # csv_reader st' [] [] cs
      | EmptyRecord st' \<Rightarrow> [] # csv_reader st' [] [] cs)"

definition csv_parse :: "string \<Rightarrow> string list list" where
  "csv_parse text = csv_reader START_RECORD [] [] text"

section \<open>Module-level names and default arguments\<close>

text \<open>
  The module's global names (lines 74 to 83). The functions of the script take
  \<^verbatim>\<open>product_type\<close> and \<^verbatim>\<open>review_attributes\<close> as parameters of the same names, written
  with a prime below, and read the other four names from the globals when they run.
\<close>

record globals =
  product_type :: string
  review_attributes :: string
  source_hints :: string
  avoid_types :: string
  markdown_output :: string
  csv_output :: string

definition module_globals :: globals where
  "module_globals =
     \<lparr>product_type = ''NETGEAR RAXE300 Reviews'',
      review_attributes = ''price range, ratings, title, urls, name, ports available, and features description, mobile dropping connection issues'',
      source_hints = ''like tech review sites, amazon reviews,'',
      avoid_types = ''Do Not look at other devices.'',
      markdown_output = ''router_review.md'',
      csv_output = ''router_review.csv''\<rparr>"

text \<open>
  A \<^verbatim>\<open>def\<close> statement evaluates its default values once, when it runs: the functions
  \<^verbatim>\<open>MarkdownTableTool._run\<close> and \<^verbatim>\<open>CSVWriterTool._run\<close> keep the values that
  \<^verbatim>\<open>markdown_output\<close> and \<^verbatim>\<open>csv_output\<close> have at that moment. The state of the module is
  its globals and the defaults stored in the two functions.
\<close>

record module_state =
  globals_of :: globals
  MarkdownTableTool_file_name :: string
  MarkdownTableTool_append :: bool
  CSVWriterTool_file_name :: string

definition define_tools :: "globals \<Rightarrow> module_state" where
  "define_tools g =
     \<lparr>globals_of = g,
      MarkdownTableTool_file_name = markdown_output g,
      MarkdownTableTool_append = False,
      CSVWriterTool_file_name = csv_output g\<rparr>"

text \<open>An assignment to a global name after the classes are defined.\<close>

definition assign :: "string \<Rightarrow> string \<Rightarrow> module_state \<Rightarrow> module_state" where
  "assign x v m =
     m\<lparr>globals_of :=
          (if x = ''product_type'' then (globals_of m)\<lparr>product_type := v\<rparr>
           else if x = ''review_attributes'' then (globals_of m)\<lparr>review_attributes := v\<rparr>
           else if x = ''source_hints'' then (globals_of m)\<lparr>source_hints := v\<rparr>
           else if x = ''avoid_types'' then (globals_of m)\<lparr>avoid_types := v\<rparr>
           else if x = ''markdown_output'' then (globals_of m)\<lparr>markdown_output := v\<rparr>
           else if x = ''csv_output'' then (globals_of m)\<lparr>csv_output := v\<rparr>
           else globals_of m)\<rparr>"

definition assign_all :: "(string \<times> string) list \<Rightarrow> module_state \<Rightarrow> module_state" where
  "assign_all xs m = fold (\<lambda>(x, v). assign x v) xs m"

text \<open>A call of a tool: an argument that is left out (\<open>None\<close>) takes the stored default.\<close>

definition call_MarkdownTableTool_run ::
  "module_state \<Rightarrow> ('v dataframe \<Rightarrow> string) \<Rightarrow> filesystem \<Rightarrow> 'v pyrecord list
   \<Rightarrow> string option \<Rightarrow> bool option \<Rightarrow> filesystem \<times> (error + string)" where
  "call_MarkdownTableTool_run m to_md fs data file_name append_flag =
     MarkdownTableTool_run to_md fs data
       (case file_name of None \<Rightarrow> MarkdownTableTool_file_name m | Some f \<Rightarrow> f)
       (case append_flag of None \<Rightarrow> MarkdownTableTool_append m | Some a \<Rightarrow> a)"

definition call_CSVWriterTool_run ::
  "module_state \<Rightarrow> ('v dataframe \<Rightarrow> string) \<Rightarrow> filesystem \<Rightarrow> 'v pyrecord list
   \<Rightarrow> string option \<Rightarrow> filesystem \<times> (error + string)" where
  "call_CSVWriterTool_run m to_csv_text fs data file_name =
     CSVWriterTool_run to_csv_text fs data
       (case file_name of None \<Rightarrow> CSVWriterTool_file_name m | Some f \<Rightarrow> f)"

section \<open>Agents, tasks and the crew\<close>

datatype tool = SerperDevTool | EXASearchTool | ScrapeWebsiteTool | MarkdownTableTool | CSVWriterTool

record agent =
  role :: string
  goal :: string
  backstory :: string
  agent_tools :: "tool list"
  agent_verbose :: bool

text \<open>A task; \<open>task_context\<close> is \<open>None\<close> where the script passes no \<^verbatim>\<open>context\<close>.\<close>

datatype task = Task
  (description: string)
  (expected_output: string)
  (task_agent: agent)
  (task_tools: "tool list")
  (task_context: "task list option")
  (output_file: "string option")

datatype process = sequential | hierarchical

record crew =
  agents :: "agent list"
  tasks :: "task list"
  crew_process :: process
  crew_verbose :: nat

definition create_agents :: "string \<Rightarrow> string \<Rightarrow> tool list \<Rightarrow> tool list \<Rightarrow> agent \<times> agent" where
  "create_agents data_collector_goal data_analyzer_goal data_collector_tools data_analyzer_tools =
     (let data_collector =
            \<lparr>role = ''Data Collector'',
             goal = data_collector_goal,
             backstory = ''An efficient agent focused on gathering relevant data from various sources . Use all your tools'',
             agent_tools = data_collector_tools,
             agent_verbose = True\<rparr>;
          data_analyzer =
            \<lparr>role = ''Data Analyzer'',
             goal = data_analyzer_goal,
             backstory = ''A detailed-oriented agent responsible for analyzing data and creating structured outputs.'',
             agent_tools = data_analyzer_tools,
             agent_verbose = True\<rparr>
      in (data_collector, data_analyzer))"

definition create_tasks :: "globals \<Rightarrow> agent \<Rightarrow> agent \<Rightarrow> string \<Rightarrow> string \<Rightarrow> task \<times> task \<times> task" where
  "create_tasks g data_collector data_analyzer product_type' review_attributes' =
     (let collect_reviews_task =
            Task (''Collect product reviews for the top '' @ product_type' @ '', including ''
                    @ review_attributes' @ ''. Use these type of '' @ source_hints g)
                 ''A JSON object containing the collected reviews.''
                 data_collector
                 [ScrapeWebsiteTool]
                 None
                 None;
          analyze_reviews_markdown_task =
            Task (''Analyze collected reviews and generate a markdown table for '' @ product_type'
                    @ '', including '' @ review_attributes' @ ''. Be sure to avoide '' @ avoid_types g)
                 ''A markdown table saved to reviews.md.''
                 data_analyzer
                 [MarkdownTableTool]
                 (Some [collect_reviews_task])
                 (Some (markdown_output g));
          analyze_reviews_csv_task =
            Task (''Analyze collected reviews of '' @ product_type' @ '', including ''
                    @ review_attributes' @ ''. Be sure to avoide '' @ avoid_types g
                    @ '' and generate a CSV file.'')
                 ''A CSV file saved to reviews.csv.''
                 data_analyzer
                 [CSVWriterTool]
                 (Some [collect_reviews_task])
                 (Some (csv_output g))
      in (collect_reviews_task, analyze_reviews_markdown_task, analyze_reviews_csv_task))"

text \<open>The crew that \<^verbatim>\<open>create_and_kickoff_crew\<close> builds before it calls \<^verbatim>\<open>kickoff\<close>.\<close>

definition reviews_crew :: "globals \<Rightarrow> string \<Rightarrow> string \<Rightarrow> crew" where
  "reviews_crew g product_type' review_attributes' =
     (let data_collector_goal =
            ''Collect product reviews for the top '' @ product_type' @ '', including ''
              @ review_attributes' @ ''. Be sure to avoide '' @ avoid_types g;
          data_analyzer_goal =
            ''Analyze collected reviews and generate markdown and CSV outputs for '' @ product_type'
              @ '', including '' @ review_attributes' @ ''. Be sure to avoide '' @ avoid_types g;
          data_collector_tools = [SerperDevTool, EXASearchTool, ScrapeWebsiteTool];
          data_analyzer_tools = [MarkdownTableTool, CSVWriterTool];
          (data_collector, data_analyzer) =
            create_agents data_collector_goal data_analyzer_goal data_collector_tools data_analyzer_tools;
          (collect_reviews_task, analyze_reviews_markdown_task, analyze_reviews_csv_task) =
            create_tasks g data_collector data_analyzer product_type' review_attributes'
      in \<lparr>agents = [data_collector, data_analyzer],
          tasks = [collect_reviews_task, analyze_reviews_markdown_task, analyze_reviews_csv_task],
          crew_process = sequential,
          crew_verbose = 2\<rparr>)"

text \<open>
  The pipeline's ordering: walking the tasks in order, every task a task names as context
  has been passed already.
\<close>

fun contexts_precede :: "task list \<Rightarrow> task list \<Rightarrow> bool" where
  "contexts_precede seen [] = True"
| "contexts_precede seen (t # ts) =
     ((case task_context t of None \<Rightarrow> True | Some cs \<Rightarrow> list_all (\<lambda>c. c \<in> set seen \<and> c \<noteq> t \<and> c \<notin> set ts) cs)
      \<and> contexts_precede (seen @ [t]) ts)"

section \<open>Running the script\<close>

text \<open>
  The script's collaborators are outside it: the \<^verbatim>\<open>.env\<close> file and the process
  environment, the constructors of the framework's classes (any of which may raise), the
  framework's execution of one task, which is given the outputs of the task's context
  and ends with an output (\<open>Inr\<close>) or with an exception (\<open>Inl\<close>), and the value that
  the framework makes of the outputs of a run that completes. The script has no
  \<^verbatim>\<open>try\<close> and no \<^verbatim>\<open>raise\<close> of its own: an exception of a collaborator passes through
  it unchanged.
\<close>

record world =
  dotenv :: "(string \<times> string) list"
  environ :: "string \<rightharpoonup> string"
  new_raises :: "(string \<rightharpoonup> string) \<Rightarrow> string \<Rightarrow> string option"
  execute :: "(string \<rightharpoonup> string) \<Rightarrow> task \<Rightarrow> string list \<Rightarrow> string + string"
  result_of :: "string list \<Rightarrow> string"

datatype event = Load_dotenv | Construct string | Execute task

text \<open>
  \<^verbatim>\<open>load_dotenv()\<close> (line 69) adds the entries of \<^verbatim>\<open>.env\<close> that the environment does not
  set already; the script drops what it returns.
\<close>

definition load_dotenv :: "(string \<times> string) list \<Rightarrow> (string \<rightharpoonup> string) \<Rightarrow> (string \<rightharpoonup> string)" where
  "load_dotenv entries env = map_of (rev entries) ++ env"

text \<open>
  The constructor calls of \<^verbatim>\<open>create_and_kickoff_crew\<close>, \<^verbatim>\<open>create_agents\<close> and
  \<^verbatim>\<open>create_tasks\<close> in the order in which Python evaluates them (lines 184 to 196).
\<close>

definition constructions :: "string list" where
  "constructions =
     [''SerperDevTool'', ''EXASearchTool'', ''ScrapeWebsiteTool'',
      ''MarkdownTableTool'', ''CSVWriterTool'',
      ''Agent'', ''Agent'',
      ''ScrapeWebsiteTool'', ''Task'', ''MarkdownTableTool'', ''Task'', ''CSVWriterTool'', ''Task'',
      ''Crew'']"

fun construct_all :: "(string \<Rightarrow> string option) \<Rightarrow> string list \<Rightarrow> event list \<times> string option" where
  "construct_all raises [] = ([], None)"
| "construct_all raises (c # cs) =
     (case raises c of
        Some e \<Rightarrow> ([Construct c], Some e)
      | None \<Rightarrow> (let (evs, r) = construct_all raises cs in (Construct c # evs, r)))"

text \<open>
  Modelled from the spec: \<^verbatim>\<open>Crew.kickoff()\<close> with \<^verbatim>\<open>process=Process.sequential\<close> is
  the framework's and is not under \<^verbatim>\<open>src/\<close>. As the spec's coordinator, it runs the tasks
  "in order", "strictly sequential", each on the outputs of the stages "it declared as
  context" (of the tasks before it when it names none), and a failing stage "aborts
  remaining stages". In Python the failure of a stage is an exception, and it ends the
  call of \<^verbatim>\<open>kickoff\<close>; a run that completes returns what the framework makes of the
  outputs. The log keeps what each stage that ran ended with.
\<close>

definition context_outputs :: "(task \<times> string) list \<Rightarrow> task \<Rightarrow> string list" where
  "context_outputs prior t =
     (case task_context t of
        None \<Rightarrow> map snd prior
      | Some cs \<Rightarrow> map snd (filter (\<lambda>(t', out). t' \<in> set cs) prior))"

fun run_sequential ::
  "(task \<Rightarrow> string list \<Rightarrow> string + string) \<Rightarrow> (task \<times> string) list \<Rightarrow> task list
   \<Rightarrow> (task \<times> (string + string)) list" where
  "run_sequential exec prior [] = []"
| "run_sequential exec prior (t # ts) =
     (case exec t (context_outputs prior t) of
        Inl e \<Rightarrow> [(t, Inl e)]
      | Inr out \<Rightarrow> (t, Inr out) # run_sequential exec (prior @ [(t, out)]) ts)"

fun failure_of :: "(task \<times> (string + string)) list \<Rightarrow> string option" where
  "failure_of [] = None"
| "failure_of ((t, Inl e) # rest) = Some e"
| "failure_of ((t, Inr out) # rest) = failure_of rest"

fun outputs_of :: "(task \<times> (string + string)) list \<Rightarrow> string list" where
  "outputs_of [] = []"
| "outputs_of ((t, Inl e) # rest) = outputs_of rest"
| "outputs_of ((t, Inr out) # rest) = out # outputs_of rest"

definition kickoff ::
  "(task \<Rightarrow> string list \<Rightarrow> string + string) \<Rightarrow> (string list \<Rightarrow> string) \<Rightarrow> crew
   \<Rightarrow> (task \<times> (string + string)) list \<times> (string + string)" where
  "kickoff exec report c =
     (let log = run_sequential exec [] (tasks c)
      in (log, case failure_of log of Some e \<Rightarrow> Inl e | None \<Rightarrow> Inr (report (outputs_of log))))"

text \<open>
  \<^verbatim>\<open>create_and_kickoff_crew(product_type, review_attributes)\<close>: the events it causes, the
  log of the stages, and its return value or the exception that leaves it.
\<close>

definition create_and_kickoff_crew ::
  "world \<Rightarrow> (string \<rightharpoonup> string) \<Rightarrow> globals \<Rightarrow> string \<Rightarrow> string
   \<Rightarrow> event list \<times> (task \<times> (string + string)) list \<times> (string + string)" where
  "create_and_kickoff_crew w env g product_type' review_attributes' =
     (case construct_all (new_raises w env) constructions of
        (evs, Some e) \<Rightarrow> (evs, [], Inl e)
      | (evs, None) \<Rightarrow>
          (let (log, result) =
                 kickoff (execute w env) (result_of w) (reviews_crew g product_type' review_attributes')
           in (evs @ map (Execute \<circ> fst) log, log, result)))"

text \<open>
  The script from top to bottom: \<^verbatim>\<open>load_dotenv()\<close>, the globals and the classes,
  \<^verbatim>\<open>result = create_and_kickoff_crew(product_type, review_attributes)\<close> and
  \<^verbatim>\<open>print(result)\<close> (lines 205 and 206), which an exception skips. The outcome is what
  the script itself ends with: the exception that leaves it (\<open>raised\<close>), the value that
  \<^verbatim>\<open>create_and_kickoff_crew\<close> returns (\<open>returned\<close>) and what line 206 prints
  (\<open>printed\<close>). What the framework writes while the stages run (the console output that
  \<^verbatim>\<open>verbose=2\<close> asks for, the \<^verbatim>\<open>output_file\<close> of a task that completes) is the
  framework's and is not in it.
\<close>

record outcome =
  trace :: "event list"
  stage_log :: "(task \<times> (string + string)) list"
  raised :: "string option"
  returned :: "string option"
  printed :: "string list"

definition main :: "world \<Rightarrow> outcome" where
  "main w =
     (let env = load_dotenv (dotenv w) (environ w);
          g = module_globals;
          (evs, log, result) = create_and_kickoff_crew w env g (product_type g) (review_attributes g)
      in case result of
           Inl e \<Rightarrow> \<lparr>trace = Load_dotenv # evs, stage_log = log, raised = Some e, returned = None, printed = []\<rparr>
         | Inr r \<Rightarrow> \<lparr>trace = Load_dotenv # evs, stage_log = log, raised = None, returned = Some r, printed = [r]\<rparr>)"

section \<open>Concrete inputs\<close>

definition empty_fs :: filesystem where
  "empty_fs = \<lparr>files = Map.empty, refused = (\<lambda>p. False)\<rparr>"

definition old_fs :: filesystem where
  "old_fs = \<lparr>files = [''out.md'' \<mapsto> ''old report''], refused = (\<lambda>p. False)\<rparr>"

definition one_record :: "string pyrecord list" where
  "one_record = [[(''name'', ''A'')]]"

text \<open>
  A record with a pipe in a cell; two records of numbers with different keys; records
  with a comma, quotes and a line feed in a text, a number under a key that the other
  record lacks, a number under a key that both have, and a null.
\<close>

definition pipe_record :: "string pyrecord list" where
  "pipe_record = [[(''a'', ''x|y'')]]"

definition numbers_record :: "pyvalue pyrecord list" where
  "numbers_record = [[(''a'', Number 1)], [(''b'', Number 2)]]"

definition mixed_record :: "pyvalue pyrecord list" where
  "mixed_record =
     [[(''name'', Text (''Router, '' @ [CHR 0x22] @ ''dual'' @ [CHR 0x22, CHR 0x0A] @ ''band'')),
       (''ports'', Number 4), (''stars'', Number 5)],
      [(''name'', Null), (''stars'', Number 3)]]"

text \<open>Assignments to the two output names, as in the examples at the end of the script.\<close>

definition later_assignments :: "(string \<times> string) list" where
  "later_assignments =
     [(''markdown_output'', ''hosting_providers_review.md''),
      (''csv_output'', ''hosting_providers_review.csv'')]"

text \<open>The records of the spec's concrete scenario.\<close>

definition spec_scenario :: "string pyrecord list" where
  "spec_scenario = [[(''name'', ''A''), (''price'', ''$10'')], [(''name'', ''B''), (''ports'', ''4'')]]"

text \<open>
  Three worlds without a \<^verbatim>\<open>.env\<close> file, in which the constructors behave alike: the
  first \<^verbatim>\<open>Agent\<close> constructor raises the error of the language model client when it
  finds no \<^verbatim>\<open>OPENAI_API_KEY\<close> in the environment, and no other constructor raises. In
  the first two the environment holds the keys: in one the first stage gives its output
  and every later stage fails, in the other every stage fails. In the third the
  environment is empty.
\<close>

definition agent_needs_key :: "(string \<rightharpoonup> string) \<Rightarrow> string \<Rightarrow> string option" where
  "agent_needs_key env c =
     (if c = ''Agent'' \<and> env ''OPENAI_API_KEY'' = None then Some ''Did not find openai_api_key'' else None)"

definition environment_with_keys :: "string \<rightharpoonup> string" where
  "environment_with_keys =
     [''OPENAI_API_KEY'' \<mapsto> ''sk-test'', ''SERPER_API_KEY'' \<mapsto> ''serper-test'', ''EXA_API_KEY'' \<mapsto> ''exa-test'']"

definition world_stage2_fails :: world where
  "world_stage2_fails =
     \<lparr>dotenv = [], environ = environment_with_keys, new_raises = agent_needs_key,
      execute = (\<lambda>env t ctx. if task_context t = None then Inr ''reviews'' else Inl ''boom''),
      result_of = concat\<rparr>"

definition world_stage1_fails :: world where
  "world_stage1_fails =
     \<lparr>dotenv = [], environ = environment_with_keys, new_raises = agent_needs_key,
      execute = (\<lambda>env t ctx. Inl ''boom''),
      result_of = concat\<rparr>"

definition world_empty_environment :: world where
  "world_empty_environment =
     \<lparr>dotenv = [], environ = Map.empty, new_raises = agent_needs_key,
      execute = (\<lambda>env t ctx. Inr ''reviews''),
      result_of = concat\<rparr>"

section \<open>What the operations leave in a file\<close>

lemma run_ops_append: "run_ops (xs @ ys) fs = run_ops ys (run_ops xs fs)"
  by (simp add: run_ops_def)

lemma run_ops_f_write_Some:
  "fs p = Some old \<Longrightarrow> run_ops (f_write p s) fs = fs(p \<mapsto> old @ s)"
proof (induction s arbitrary: fs old)
  case Nil
  then show ?case by (simp add: run_ops_def f_write_def fun_upd_idem)
next
  case (Cons c s)
  let ?fs1 = "io_step (Put p c) fs"
  have step: "run_ops (f_write p (c # s)) fs = run_ops (f_write p s) ?fs1"
    by (simp add: run_ops_def f_write_def)
  have fs1: "?fs1 = fs(p \<mapsto> old @ [c])"
    by (simp add: Cons.prems)
  have "run_ops (f_write p s) ?fs1 = ?fs1(p \<mapsto> (old @ [c]) @ s)"
    by (rule Cons.IH) (simp add: Cons.prems)
  then show ?case
    by (simp add: step fs1)
qed

lemma overwrite_ops_result:
  "run_ops (MarkdownTableTool_ops t p False) fs = fs(p \<mapsto> t)"
proof -
  have "run_ops (MarkdownTableTool_ops t p False) fs = run_ops (f_write p t) (fs(p \<mapsto> []))"
    by (simp add: MarkdownTableTool_ops_def run_ops_def)
  also have "\<dots> = (fs(p \<mapsto> []))(p \<mapsto> [] @ t)"
    by (rule run_ops_f_write_Some) simp
  finally show ?thesis by simp
qed

lemma append_ops_result:
  "run_ops (MarkdownTableTool_ops t p True) fs =
     fs(p \<mapsto> (case fs p of None \<Rightarrow> [] | Some old \<Rightarrow> old) @ [newline, newline] @ t)"
proof -
  let ?old = "case fs p of None \<Rightarrow> [] | Some old \<Rightarrow> old"
  let ?fs1 = "io_step (Open p A) fs"
  have fs1: "?fs1 = fs(p \<mapsto> ?old)"
    by (auto split: option.splits simp: fun_upd_idem)
  have "run_ops (MarkdownTableTool_ops t p True) fs =
          run_ops (f_write p t) (run_ops (f_write p [newline, newline]) ?fs1)"
    by (simp add: MarkdownTableTool_ops_def run_ops_def)
  also have "run_ops (f_write p [newline, newline]) ?fs1 = fs(p \<mapsto> ?old @ [newline, newline])"
    unfolding fs1 by (subst run_ops_f_write_Some [where old = ?old]) simp_all
  also have "run_ops (f_write p t) (fs(p \<mapsto> ?old @ [newline, newline])) =
          fs(p \<mapsto> (?old @ [newline, newline]) @ t)"
    by (subst run_ops_f_write_Some [where old = "?old @ [newline, newline]"]) simp_all
  finally show ?thesis by simp
qed

lemma take_f_write: "take k (f_write p s) = f_write p (take k s)"
  by (simp add: f_write_def take_map)

lemma interrupted_overwrite:
  "interrupted_after (Suc k) (Open p W # f_write p t) fs = fs(p \<mapsto> take k t)"
proof -
  have "interrupted_after (Suc k) (Open p W # f_write p t) fs =
          run_ops (f_write p (take k t)) (fs(p \<mapsto> []))"
    by (simp add: interrupted_after_def run_ops_def take_f_write)
  also have "\<dots> = (fs(p \<mapsto> []))(p \<mapsto> [] @ take k t)"
    by (rule run_ops_f_write_Some) simp
  finally show ?thesis by simp
qed

lemma csv_ops_result: "run_ops (CSVWriterTool_ops t p) fs = fs(p \<mapsto> t)"
proof -
  have "run_ops (CSVWriterTool_ops t p) fs = run_ops (f_write p t) (fs(p \<mapsto> []))"
    by (simp add: CSVWriterTool_ops_def run_ops_def)
  also have "\<dots> = (fs(p \<mapsto> []))(p \<mapsto> [] @ t)"
    by (rule run_ops_f_write_Some) simp
  finally show ?thesis by simp
qed

lemma MarkdownTableTool_run_files:
  "\<not> refused fs p \<Longrightarrow>
   files (fst (MarkdownTableTool_run to_md fs data p a)) =
     run_ops (MarkdownTableTool_ops (to_md (DataFrame data)) p a) (files fs)"
  by (simp add: MarkdownTableTool_run_def Let_def)

lemma MarkdownTableTool_run_refused:
  "refused (fst (MarkdownTableTool_run to_md fs data p a)) = refused fs"
  by (simp add: MarkdownTableTool_run_def Let_def)

lemma CSVWriterTool_run_files:
  "\<not> refused fs p \<Longrightarrow>
   files (fst (CSVWriterTool_run to_csv_text fs data p)) = (files fs)(p \<mapsto> to_csv_text (DataFrame data))"
  by (simp add: CSVWriterTool_run_def Let_def csv_ops_result)

lemma CSVWriterTool_run_refused:
  "refused (fst (CSVWriterTool_run to_csv_text fs data p)) = refused fs"
  by (simp add: CSVWriterTool_run_def Let_def)

section \<open>The separator of append mode\<close>

text \<open>
  C4, as the spec states it: the separator is written if and only if the destination is
  not empty. The code writes it whenever \<^verbatim>\<open>append\<close> is set: appending to a destination
  that does not exist leaves a file that starts with the two line feeds.
\<close>

theorem C4_separator_on_absent_destination:
  "files empty_fs ''out.md'' = None \<and>
   files (fst (MarkdownTableTool_run to_markdown empty_fs one_record ''out.md'' True)) ''out.md''
     = Some ([newline, newline] @ ''| name   |'' @ [newline] @ ''|:-------|'' @ [newline] @ ''| A      |'') \<and>
   to_markdown (DataFrame one_record)
     = ''| name   |'' @ [newline] @ ''|:-------|'' @ [newline] @ ''| A      |''"
  by (simp add: MarkdownTableTool_run_def Let_def append_ops_result empty_fs_def one_record_def
      DataFrame_def dicts_to_array_def to_markdown_def md_lines_def md_widths_def column_width_def
      column_cells_def pipe_row_def pipe_line_def ljust_def md_cell_def newline_def)

text \<open>
  C4, amended: in append mode the writer puts the separator (two line feeds) before the
  new content whatever the destination holds, also when it is empty or absent; in
  overwrite mode it writes no separator; so writing A and then appending B leaves A, the
  separator, B.
\<close>

theorem C4_separator_follows_append_flag:
  assumes "\<not> refused fs p"
  shows "files (fst (MarkdownTableTool_run to_md fs b p True)) p =
           Some ((case files fs p of None \<Rightarrow> [] | Some old \<Rightarrow> old) @ [newline, newline] @ to_md (DataFrame b)) \<and>
         files (fst (MarkdownTableTool_run to_md fs a p False)) p = Some (to_md (DataFrame a)) \<and>
         files (fst (MarkdownTableTool_run to_md (fst (MarkdownTableTool_run to_md fs a p False)) b p True)) p =
           Some (to_md (DataFrame a) @ [newline, newline] @ to_md (DataFrame b))"
proof -
  have appended: "files (fst (MarkdownTableTool_run to_md fs b p True)) p =
           Some ((case files fs p of None \<Rightarrow> [] | Some old \<Rightarrow> old) @ [newline, newline] @ to_md (DataFrame b))"
    using assms by (simp add: MarkdownTableTool_run_files append_ops_result)
  have first: "files (fst (MarkdownTableTool_run to_md fs a p False)) p = Some (to_md (DataFrame a))"
    using assms by (simp add: MarkdownTableTool_run_files overwrite_ops_result)
  let ?fs1 = "fst (MarkdownTableTool_run to_md fs a p False)"
  have "\<not> refused ?fs1 p"
    using assms by (simp add: MarkdownTableTool_run_refused)
  then have "files (fst (MarkdownTableTool_run to_md ?fs1 b p True)) p =
           Some ((case files ?fs1 p of None \<Rightarrow> [] | Some old \<Rightarrow> old) @ [newline, newline] @ to_md (DataFrame b))"
    by (simp add: MarkdownTableTool_run_files append_ops_result)
  then have both: "files (fst (MarkdownTableTool_run to_md ?fs1 b p True)) p =
           Some (to_md (DataFrame a) @ [newline, newline] @ to_md (DataFrame b))"
    by (simp add: first)
  from appended first both show ?thesis by blast
qed

theorem C4_separator_follows_append_flag_witness:
  "\<not> refused empty_fs ''out.md'' \<and>
   files (fst (MarkdownTableTool_run to_markdown empty_fs one_record ''out.md'' True)) ''out.md'' =
     Some ([newline, newline] @ to_markdown (DataFrame one_record)) \<and>
   files (fst (MarkdownTableTool_run to_markdown
            (fst (MarkdownTableTool_run to_markdown empty_fs one_record ''out.md'' False)) one_record ''out.md'' True)) ''out.md'' =
     Some (to_markdown (DataFrame one_record) @ [newline, newline] @ to_markdown (DataFrame one_record))"
proof -
  have h: "\<not> refused empty_fs ''out.md''"
    by (simp add: empty_fs_def)
  have "files empty_fs ''out.md'' = None"
    by (simp add: empty_fs_def)
  then show ?thesis
    using h C4_separator_follows_append_flag
        [OF h, where to_md = to_markdown and a = one_record and b = one_record]
    by simp
qed

section \<open>Overwrite mode\<close>

text \<open>
  C5, as the spec states it: at every point of an overwrite the destination holds the
  complete old content or the complete new content. The code opens the destination with
  \<^verbatim>\<open>open(file_name, 'w')\<close>, which truncates it, and writes in place: a run cut off
  after the open leaves an empty file, and one cut off two characters later leaves the
  first two characters of the new table.
\<close>

theorem C5_truncated_destination:
  "files old_fs ''out.md'' = Some ''old report'' \<and>
   to_markdown (DataFrame one_record) = ''| name   |'' @ [newline] @ ''|:-------|'' @ [newline] @ ''| A      |'' \<and>
   interrupted_after 1 (MarkdownTableTool_ops (to_markdown (DataFrame one_record)) ''out.md'' False) (files old_fs) ''out.md''
     = Some [] \<and>
   interrupted_after 3 (MarkdownTableTool_ops (to_markdown (DataFrame one_record)) ''out.md'' False) (files old_fs) ''out.md''
     = Some ''| ''"
  by (simp add: interrupted_after_def run_ops_def MarkdownTableTool_ops_def f_write_def old_fs_def
      one_record_def DataFrame_def dicts_to_array_def to_markdown_def md_lines_def md_widths_def
      column_width_def column_cells_def pipe_row_def pipe_line_def ljust_def md_cell_def newline_def)

text \<open>
  C5, amended: an overwrite that runs to its end leaves exactly the new content in the
  destination, for the markdown writer and for the CSV writer, and overwrite applied twice
  leaves only the second content. The replacement is not atomic: the destination is
  truncated when it is opened and filled in place, so a run that stops before the open
  leaves the destination as it was, and a run that stops after the open and \<open>k\<close>
  written characters leaves exactly the first \<open>k\<close> characters of the new content,
  whatever the old content was.
\<close>

theorem C5_overwrite_in_place:
  assumes "\<not> refused fs p"
  shows "files (fst (MarkdownTableTool_run to_md fs a p False)) p = Some (to_md (DataFrame a)) \<and>
         files (fst (CSVWriterTool_run to_csv_text fs a p)) p = Some (to_csv_text (DataFrame a)) \<and>
         files (fst (MarkdownTableTool_run to_md (fst (MarkdownTableTool_run to_md fs a p False)) b p False)) p
           = Some (to_md (DataFrame b)) \<and>
         files (fst (CSVWriterTool_run to_csv_text (fst (CSVWriterTool_run to_csv_text fs a p)) b p)) p
           = Some (to_csv_text (DataFrame b)) \<and>
         interrupted_after (Suc k) (MarkdownTableTool_ops (to_md (DataFrame a)) p False) (files fs) p
           = Some (take k (to_md (DataFrame a))) \<and>
         interrupted_after (Suc k) (CSVWriterTool_ops (to_csv_text (DataFrame a)) p) (files fs) p
           = Some (take k (to_csv_text (DataFrame a))) \<and>
         interrupted_after 0 (MarkdownTableTool_ops (to_md (DataFrame a)) p False) (files fs) = files fs \<and>
         interrupted_after 0 (CSVWriterTool_ops (to_csv_text (DataFrame a)) p) (files fs) = files fs"
proof -
  have md1: "files (fst (MarkdownTableTool_run to_md fs a p False)) p = Some (to_md (DataFrame a))"
    using assms by (simp add: MarkdownTableTool_run_files overwrite_ops_result)
  have csv1: "files (fst (CSVWriterTool_run to_csv_text fs a p)) p = Some (to_csv_text (DataFrame a))"
    using assms by (simp add: CSVWriterTool_run_files)
  have "\<not> refused (fst (MarkdownTableTool_run to_md fs a p False)) p"
    using assms by (simp add: MarkdownTableTool_run_refused)
  then have md2: "files (fst (MarkdownTableTool_run to_md (fst (MarkdownTableTool_run to_md fs a p False)) b p False)) p
           = Some (to_md (DataFrame b))"
    by (simp add: MarkdownTableTool_run_files overwrite_ops_result)
  have "\<not> refused (fst (CSVWriterTool_run to_csv_text fs a p)) p"
    using assms by (simp add: CSVWriterTool_run_refused)
  then have csv2: "files (fst (CSVWriterTool_run to_csv_text (fst (CSVWriterTool_run to_csv_text fs a p)) b p)) p
           = Some (to_csv_text (DataFrame b))"
    by (simp add: CSVWriterTool_run_files)
  have md3: "interrupted_after (Suc k) (MarkdownTableTool_ops (to_md (DataFrame a)) p False) (files fs) p
           = Some (take k (to_md (DataFrame a)))"
    by (simp add: MarkdownTableTool_ops_def interrupted_overwrite)
  have csv3: "interrupted_after (Suc k) (CSVWriterTool_ops (to_csv_text (DataFrame a)) p) (files fs) p
           = Some (take k (to_csv_text (DataFrame a)))"
    by (simp add: CSVWriterTool_ops_def interrupted_overwrite)
  have md0: "interrupted_after 0 (MarkdownTableTool_ops (to_md (DataFrame a)) p False) (files fs) = files fs"
    by (simp add: interrupted_after_def run_ops_def)
  have csv0: "interrupted_after 0 (CSVWriterTool_ops (to_csv_text (DataFrame a)) p) (files fs) = files fs"
    by (simp add: interrupted_after_def run_ops_def)
  from md1 csv1 md2 csv2 md3 csv3 md0 csv0 show ?thesis by blast
qed

theorem C5_overwrite_in_place_witness:
  "\<not> refused old_fs ''out.md'' \<and>
   files (fst (MarkdownTableTool_run to_markdown old_fs one_record ''out.md'' False)) ''out.md''
     = Some (to_markdown (DataFrame one_record)) \<and>
   files (fst (MarkdownTableTool_run to_markdown
            (fst (MarkdownTableTool_run to_markdown old_fs [] ''out.md'' False)) one_record ''out.md'' False)) ''out.md''
     = Some (to_markdown (DataFrame one_record))"
proof -
  have h: "\<not> refused old_fs ''out.md''"
    by (simp add: old_fs_def)
  show ?thesis
    using h C5_overwrite_in_place [OF h, where to_md = to_markdown and a = one_record]
      C5_overwrite_in_place [OF h, where to_md = to_markdown and a = "[]" and b = one_record]
    by simp
qed

section \<open>The table of a record list\<close>

lemma remdups_snoc: "remdups (xs @ [k]) = filter (\<lambda>x. x \<noteq> k) (remdups xs) @ [k]"
  by (induction xs) auto

lemma first_seen_Cons: "first_seen (k # ks) = k # first_seen (filter (\<lambda>x. x \<noteq> k) ks)"
  by (simp add: first_seen_def remdups_snoc rev_filter remdups_filter)

lemma fast_unique_first_seen:
  "fast_unique us ks = us @ first_seen (filter (\<lambda>k. k \<notin> set us) ks)"
proof (induction ks arbitrary: us)
  case Nil
  then show ?case by (simp add: first_seen_def)
next
  case (Cons k ks)
  show ?case
  proof (cases "k \<in> set us")
    case True
    then show ?thesis using Cons.IH [of us] by simp
  next
    case False
    have "(\<lambda>x. x \<notin> set (us @ [k])) = (\<lambda>x. x \<notin> set us \<and> x \<noteq> k)"
      by auto
    then have "fast_unique (us @ [k]) ks = us @ k # first_seen (filter (\<lambda>x. x \<notin> set us \<and> x \<noteq> k) ks)"
      using Cons.IH [of "us @ [k]"] by simp
    then show ?thesis using False
      by (simp add: first_seen_Cons)
  qed
qed

lemma columns_DataFrame: "columns (DataFrame data) = first_seen (concat (map (map fst) data))"
  using fast_unique_first_seen [of "[]" "concat (map (map fst) data)"]
  by (simp add: DataFrame_def Let_def)

lemma rows_DataFrame:
  "rows (DataFrame data) = map (\<lambda>r. map (map_of r) (columns (DataFrame data))) data"
  by (simp add: DataFrame_def Let_def dicts_to_array_def)

lemma set_first_seen: "set (first_seen ks) = set ks"
  by (simp add: first_seen_def)

lemma distinct_first_seen: "distinct (first_seen ks)"
  by (simp add: first_seen_def)

text \<open>
  C1: for every list of records, the frame that both tools render has as columns the keys
  of the records, each once, in the order in which they are first seen; it has one row
  per record, in order; every row has one cell per column, the record's value under that
  key, and the null marker \<open>None\<close> exactly where the record has no such key. The
  markdown tool writes the markdown text of this frame and the CSV tool its CSV text.
\<close>

theorem C1_table_shape:
  assumes "\<not> refused fs p"
  shows "columns (DataFrame data) = first_seen (concat (map (map fst) data)) \<and>
         distinct (columns (DataFrame data)) \<and>
         set (columns (DataFrame data)) = set (concat (map (map fst) data)) \<and>
         length (rows (DataFrame data)) = length data \<and>
         rows (DataFrame data) = map (\<lambda>r. map (map_of r) (columns (DataFrame data))) data \<and>
         (\<forall>i j. i < length data \<and> j < length (columns (DataFrame data)) \<longrightarrow>
            length (rows (DataFrame data) ! i) = length (columns (DataFrame data)) \<and>
            rows (DataFrame data) ! i ! j = map_of (data ! i) (columns (DataFrame data) ! j) \<and>
            (rows (DataFrame data) ! i ! j = None) = (columns (DataFrame data) ! j \<notin> fst ` set (data ! i))) \<and>
         files (fst (MarkdownTableTool_run to_md fs data p a)) p =
           Some ((if a then (case files fs p of None \<Rightarrow> [] | Some old \<Rightarrow> old) @ [newline, newline] else [])
                 @ to_md (DataFrame data)) \<and>
         files (fst (CSVWriterTool_run to_csv_text fs data p)) p = Some (to_csv_text (DataFrame data))"
proof -
  let ?df = "DataFrame data"
  have cols: "columns ?df = first_seen (concat (map (map fst) data))"
    by (rule columns_DataFrame)
  have rws: "rows ?df = map (\<lambda>r. map (map_of r) (columns ?df)) data"
    by (rule rows_DataFrame)
  have len: "length (rows ?df) = length data"
    by (simp add: rws)
  have cells: "\<forall>i j. i < length data \<and> j < length (columns ?df) \<longrightarrow>
            length (rows ?df ! i) = length (columns ?df) \<and>
            rows ?df ! i ! j = map_of (data ! i) (columns ?df ! j) \<and>
            (rows ?df ! i ! j = None) = (columns ?df ! j \<notin> fst ` set (data ! i))"
    by (simp add: rws map_of_eq_None_iff)
  have md: "files (fst (MarkdownTableTool_run to_md fs data p a)) p =
           Some ((if a then (case files fs p of None \<Rightarrow> [] | Some old \<Rightarrow> old) @ [newline, newline] else [])
                 @ to_md ?df)"
    using assms by (cases a) (simp_all add: MarkdownTableTool_run_files append_ops_result overwrite_ops_result)
  have csv: "files (fst (CSVWriterTool_run to_csv_text fs data p)) p = Some (to_csv_text ?df)"
    using assms by (simp add: CSVWriterTool_run_files)
  have d: "distinct (columns ?df)" and s: "set (columns ?df) = set (concat (map (map fst) data))"
    by (simp_all only: cols set_first_seen distinct_first_seen)
  from cols d s len rws cells md csv show ?thesis by blast
qed

theorem C1_table_shape_witness:
  "\<not> refused empty_fs ''out.csv'' \<and>
   columns (DataFrame spec_scenario) = [''name'', ''price'', ''ports''] \<and>
   rows (DataFrame spec_scenario) = [[Some ''A'', Some ''$10'', None], [Some ''B'', None, Some ''4'']] \<and>
   files (fst (CSVWriterTool_run to_csv empty_fs spec_scenario ''out.csv'')) ''out.csv''
     = Some (to_csv (DataFrame spec_scenario))"
proof -
  have h: "\<not> refused empty_fs ''out.csv''"
    by (simp add: empty_fs_def)
  have c: "first_seen (concat (map (map fst) spec_scenario)) = [''name'', ''price'', ''ports'']"
    by (simp add: first_seen_def spec_scenario_def)
  have d: "spec_scenario = [[(''name'', ''A''), (''price'', ''$10'')], [(''name'', ''B''), (''ports'', ''4'')]]"
    by (simp add: spec_scenario_def)
  have "columns (DataFrame spec_scenario) = [''name'', ''price'', ''ports''] \<and>
        rows (DataFrame spec_scenario) = map (\<lambda>r. map (map_of r) [''name'', ''price'', ''ports'']) spec_scenario \<and>
        files (fst (CSVWriterTool_run to_csv empty_fs spec_scenario ''out.csv'')) ''out.csv''
          = Some (to_csv (DataFrame spec_scenario))"
    using C1_table_shape [OF h, where data = spec_scenario and to_csv_text = to_csv] c
    by simp
  then show ?thesis
    using h by (simp add: d)
qed

section \<open>The empty record list\<close>

text \<open>
  C6: for the empty list of records neither tool raises, and what it renders is the
  table without rows (and without columns): the markdown tool writes the markdown text of
  that table to its destination (after the old content and the separator in append
  mode) and returns its message, and the CSV tool writes the CSV text of that table and
  returns its message, once the destination can be opened. The markdown text of the
  table without rows has no line, so the file the markdown tool writes is empty; its
  CSV text is one empty line, which parses to a header without fields and no record.
\<close>

theorem C6_empty_record_list:
  assumes "\<not> refused fs p"
  shows "DataFrame ([] :: 'v pyrecord list) = \<lparr>columns = [], rows = []\<rparr> \<and>
         MarkdownTableTool_run to_md fs ([] :: 'v pyrecord list) p False =
           (fs\<lparr>files := (files fs)(p \<mapsto> to_md \<lparr>columns = [], rows = []\<rparr>)\<rparr>,
            Inr (''Markdown table generated and saved as '' @ p)) \<and>
         MarkdownTableTool_run to_md fs ([] :: 'v pyrecord list) p True =
           (fs\<lparr>files := (files fs)(p \<mapsto> (case files fs p of None \<Rightarrow> [] | Some old \<Rightarrow> old)
                                           @ [newline, newline] @ to_md \<lparr>columns = [], rows = []\<rparr>)\<rparr>,
            Inr (''Markdown table generated and saved as '' @ p)) \<and>
         CSVWriterTool_run to_csv_text fs ([] :: 'v pyrecord list) p =
           (fs\<lparr>files := (files fs)(p \<mapsto> to_csv_text \<lparr>columns = [], rows = []\<rparr>)\<rparr>,
            Inr (''CSV file generated and saved as '' @ p)) \<and>
         md_lines \<lparr>columns = [], rows = []\<rparr> = [] \<and>
         files (fst (MarkdownTableTool_run to_markdown fs [] p False)) p = Some [] \<and>
         files (fst (CSVWriterTool_run to_csv fs [] p)) p = Some [newline] \<and>
         files (fst (CSVWriterTool_run to_csv_values fs [] p)) p = Some [newline] \<and>
         csv_parse [newline] = [[]]"
proof -
  have frame: "DataFrame ([] :: 'v pyrecord list) = \<lparr>columns = [], rows = []\<rparr>"
    by (simp add: DataFrame_def dicts_to_array_def)
  have md_w: "MarkdownTableTool_run to_md fs ([] :: 'v pyrecord list) p False =
           (fs\<lparr>files := (files fs)(p \<mapsto> to_md \<lparr>columns = [], rows = []\<rparr>)\<rparr>,
            Inr (''Markdown table generated and saved as '' @ p))"
    using assms by (simp add: MarkdownTableTool_run_def Let_def frame overwrite_ops_result)
  have md_a: "MarkdownTableTool_run to_md fs ([] :: 'v pyrecord list) p True =
           (fs\<lparr>files := (files fs)(p \<mapsto> (case files fs p of None \<Rightarrow> [] | Some old \<Rightarrow> old)
                                           @ [newline, newline] @ to_md \<lparr>columns = [], rows = []\<rparr>)\<rparr>,
            Inr (''Markdown table generated and saved as '' @ p))"
    using assms by (simp add: MarkdownTableTool_run_def Let_def frame append_ops_result)
  have csv_w: "CSVWriterTool_run to_csv_text fs ([] :: 'v pyrecord list) p =
           (fs\<lparr>files := (files fs)(p \<mapsto> to_csv_text \<lparr>columns = [], rows = []\<rparr>)\<rparr>,
            Inr (''CSV file generated and saved as '' @ p))"
    using assms by (simp add: CSVWriterTool_run_def Let_def frame csv_ops_result)
  have no_lines: "md_lines \<lparr>columns = [], rows = []\<rparr> = []"
    by (simp add: md_lines_def md_widths_def)
  have md_file: "files (fst (MarkdownTableTool_run to_markdown fs [] p False)) p = Some []"
    using assms
    by (simp add: MarkdownTableTool_run_files overwrite_ops_result DataFrame_def dicts_to_array_def
        to_markdown_def no_lines)
  have csv_file: "files (fst (CSVWriterTool_run to_csv fs [] p)) p = Some [newline]"
    using assms
    by (simp add: CSVWriterTool_run_files DataFrame_def dicts_to_array_def to_csv_def csv_table_def
        csv_writerow_def)
  have csv_values_file: "files (fst (CSVWriterTool_run to_csv_values fs [] p)) p = Some [newline]"
    using assms
    by (simp add: CSVWriterTool_run_files DataFrame_def dicts_to_array_def to_csv_values_def
        values_to_text_def to_csv_def csv_table_def csv_writerow_def)
  have parsed: "csv_parse [newline] = [[]]"
    by (simp add: csv_parse_def newline_def)
  from frame md_w md_a csv_w no_lines md_file csv_file csv_values_file parsed show ?thesis
    by blast
qed

theorem C6_empty_record_list_witness:
  "\<not> refused old_fs ''out.md'' \<and>
   files old_fs ''out.md'' = Some ''old report'' \<and>
   rows (DataFrame ([] :: string pyrecord list)) = [] \<and>
   MarkdownTableTool_run to_markdown old_fs [] ''out.md'' False =
     (old_fs\<lparr>files := (files old_fs)(''out.md'' \<mapsto> [])\<rparr>, Inr ''Markdown table generated and saved as out.md'') \<and>
   CSVWriterTool_run to_csv old_fs [] ''out.md'' =
     (old_fs\<lparr>files := (files old_fs)(''out.md'' \<mapsto> [newline])\<rparr>, Inr ''CSV file generated and saved as out.md'')"
proof -
  have h: "\<not> refused old_fs ''out.md''"
    by (simp add: old_fs_def)
  have o: "files old_fs ''out.md'' = Some ''old report''"
    by (simp add: old_fs_def)
  have m: "to_markdown \<lparr>columns = [], rows = []\<rparr> = []"
    by (simp add: to_markdown_def md_lines_def md_widths_def)
  have c: "to_csv \<lparr>columns = [], rows = []\<rparr> = [newline]"
    by (simp add: to_csv_def csv_table_def csv_writerow_def)
  show ?thesis
    using h o C6_empty_record_list [OF h, where to_md = to_markdown and to_csv_text = to_csv]
    by (simp add: m c)
qed

section \<open>A failing stage\<close>

lemma run_sequential_stops:
  "i < length (run_sequential exec prior ts) \<Longrightarrow> snd (run_sequential exec prior ts ! i) = Inl e
   \<Longrightarrow> length (run_sequential exec prior ts) = Suc i"
proof (induction ts arbitrary: prior i)
  case Nil
  then show ?case by simp
next
  case (Cons t ts)
  show ?case
  proof (cases "exec t (context_outputs prior t)")
    case (Inl e')
    with Cons.prems show ?thesis by simp
  next
    case (Inr out)
    with Cons.prems obtain i' where i: "i = Suc i'"
      by (cases i) auto
    with Cons.prems Inr Cons.IH [of i' "prior @ [(t, out)]"] show ?thesis
      by simp
  qed
qed

lemma run_sequential_before:
  "Suc j < length (run_sequential exec prior ts) \<Longrightarrow> \<exists>out. snd (run_sequential exec prior ts ! j) = Inr out"
proof (induction ts arbitrary: prior j)
  case Nil
  then show ?case by simp
next
  case (Cons t ts)
  show ?case
  proof (cases "exec t (context_outputs prior t)")
    case (Inl e')
    with Cons.prems show ?thesis by simp
  next
    case (Inr out)
    show ?thesis
    proof (cases j)
      case 0
      with Inr show ?thesis by simp
    next
      case (Suc j')
      with Cons.prems Inr Cons.IH [of j' "prior @ [(t, out)]"] show ?thesis
        by simp
    qed
  qed
qed

lemma run_sequential_tasks:
  "map fst (run_sequential exec prior ts) = take (length (run_sequential exec prior ts)) ts"
proof (induction ts arbitrary: prior)
  case Nil
  then show ?case by simp
next
  case (Cons t ts)
  then show ?case
    by (cases "exec t (context_outputs prior t)") simp_all
qed

lemma failure_of_run_sequential:
  "i < length (run_sequential exec prior ts) \<Longrightarrow> snd (run_sequential exec prior ts ! i) = Inl e
   \<Longrightarrow> failure_of (run_sequential exec prior ts) = Some e"
proof (induction ts arbitrary: prior i)
  case Nil
  then show ?case by simp
next
  case (Cons t ts)
  show ?case
  proof (cases "exec t (context_outputs prior t)")
    case (Inl e')
    with Cons.prems show ?thesis by simp
  next
    case (Inr out)
    with Cons.prems obtain i' where i: "i = Suc i'"
      by (cases i) auto
    with Inr Cons.prems Cons.IH [of i' "prior @ [(t, out)]"] show ?thesis
      by simp
  qed
qed

lemma stage_log_main:
  "stage_log (main w) =
     (case construct_all (new_raises w (load_dotenv (dotenv w) (environ w))) constructions of
        (evs, Some e) \<Rightarrow> []
      | (evs, None) \<Rightarrow>
          run_sequential (execute w (load_dotenv (dotenv w) (environ w))) []
            (tasks (reviews_crew module_globals (product_type module_globals) (review_attributes module_globals))))"
  by (simp add: main_def create_and_kickoff_crew_def kickoff_def Let_def split: prod.splits option.splits sum.splits)

lemma main_failure:
  assumes "construct_all (new_raises w (load_dotenv (dotenv w) (environ w))) constructions = (evs, None)"
    and "failure_of (stage_log (main w)) = Some e"
  shows "raised (main w) = Some e \<and> returned (main w) = None \<and> printed (main w) = []"
  using assms
  by (simp add: stage_log_main main_def create_and_kickoff_crew_def kickoff_def Let_def split: prod.splits option.splits sum.splits)

text \<open>
  C7, as the spec states it: the surfaced final result names the failing stage and
  contains the outputs of the stages before it. The script has no handler and builds no
  report: when the second stage fails after the first gave the output \<^verbatim>\<open>reviews\<close>,
  the final result is the exception of the collaborator as it was raised, nothing is
  returned and \<^verbatim>\<open>print(result)\<close> is not reached; and the final result is the same when
  it is the first stage that fails.
\<close>

theorem C7_prior_output_dropped:
  "map snd (stage_log (main world_stage2_fails)) = [Inr ''reviews'', Inl ''boom''] \<and>
   raised (main world_stage2_fails) = Some ''boom'' \<and>
   returned (main world_stage2_fails) = None \<and>
   printed (main world_stage2_fails) = [] \<and>
   map snd (stage_log (main world_stage1_fails)) = [Inl ''boom''] \<and>
   raised (main world_stage1_fails) = Some ''boom'' \<and>
   returned (main world_stage1_fails) = None \<and>
   printed (main world_stage1_fails) = []"
  by (simp add: main_def create_and_kickoff_crew_def kickoff_def constructions_def
      world_stage2_fails_def world_stage1_fails_def load_dotenv_def
      agent_needs_key_def environment_with_keys_def
      reviews_crew_def create_agents_def create_tasks_def context_outputs_def Let_def)

text \<open>
  C7, amended: when stage \<open>i\<close> fails, no stage after \<open>i\<close> runs (the stages that ran are
  the first \<open>i + 1\<close> tasks of the crew, and all before \<open>i\<close> succeeded), and the
  exception of stage \<open>i\<close> leaves the script as the stage raised it:
  \<^verbatim>\<open>create_and_kickoff_crew\<close> returns no result and \<^verbatim>\<open>print(result)\<close> is not reached.
\<close>

theorem C7_failure_propagates:
  assumes "i < length (stage_log (main w))" and "snd (stage_log (main w) ! i) = Inl e"
  shows "length (stage_log (main w)) = Suc i \<and>
         map fst (stage_log (main w)) =
           take (Suc i) (tasks (reviews_crew module_globals (product_type module_globals) (review_attributes module_globals))) \<and>
         (\<forall>j<i. \<exists>out. snd (stage_log (main w) ! j) = Inr out) \<and>
         raised (main w) = Some e \<and> returned (main w) = None \<and> printed (main w) = []"
proof -
  let ?env = "load_dotenv (dotenv w) (environ w)"
  let ?ts = "tasks (reviews_crew module_globals (product_type module_globals) (review_attributes module_globals))"
  obtain evs r where c: "construct_all (new_raises w ?env) constructions = (evs, r)"
    by (cases "construct_all (new_raises w ?env) constructions")
  have r: "r = None"
  proof (cases r)
    case (Some e')
    with c have "stage_log (main w) = []" by (simp add: stage_log_main)
    with assms show ?thesis by simp
  qed simp
  have log: "stage_log (main w) = run_sequential (execute w ?env) [] ?ts"
    using c r by (simp add: stage_log_main)
  have len: "length (stage_log (main w)) = Suc i"
    using assms unfolding log by (rule run_sequential_stops)
  have tasks: "map fst (stage_log (main w)) = take (Suc i) ?ts"
    using run_sequential_tasks [of "execute w ?env" "[]" ?ts] len by (simp add: log)
  have before: "\<forall>j<i. \<exists>out. snd (stage_log (main w) ! j) = Inr out"
  proof (intro allI impI)
    fix j assume "j < i"
    then have "Suc j < length (run_sequential (execute w ?env) [] ?ts)"
      using len by (simp add: log)
    then show "\<exists>out. snd (stage_log (main w) ! j) = Inr out"
      unfolding log by (rule run_sequential_before)
  qed
  have "failure_of (stage_log (main w)) = Some e"
    using assms unfolding log by (rule failure_of_run_sequential)
  then have out: "raised (main w) = Some e \<and> returned (main w) = None \<and> printed (main w) = []"
    using c r by (intro main_failure) simp_all
  with len tasks before show ?thesis by blast
qed

theorem C7_failure_propagates_witness:
  "(1::nat) < length (stage_log (main world_stage2_fails)) \<and>
   snd (stage_log (main world_stage2_fails) ! 1) = Inl ''boom'' \<and>
   length (stage_log (main world_stage2_fails)) = 2 \<and>
   raised (main world_stage2_fails) = Some ''boom'' \<and>
   returned (main world_stage2_fails) = None \<and>
   printed (main world_stage2_fails) = []"
proof -
  have log: "map snd (stage_log (main world_stage2_fails)) = [Inr ''reviews'', Inl ''boom'']"
    by (simp add: main_def create_and_kickoff_crew_def kickoff_def constructions_def
      world_stage2_fails_def load_dotenv_def agent_needs_key_def environment_with_keys_def
      reviews_crew_def create_agents_def create_tasks_def context_outputs_def Let_def)
  then have l: "length (stage_log (main world_stage2_fails)) = 2"
    by (metis length_map length_Cons list.size(3) numeral_2_eq_2)
  then have h1: "(1::nat) < length (stage_log (main world_stage2_fails))" by simp
  have "map snd (stage_log (main world_stage2_fails)) ! 1 = Inl ''boom''"
    by (simp add: log)
  then have h2: "snd (stage_log (main world_stage2_fails) ! 1) = Inl ''boom''"
    using h1 by simp
  show ?thesis
    using h1 h2 l C7_failure_propagates [OF h1 h2] by simp
qed

section \<open>The order of the tasks\<close>

lemma tasks_reviews_crew:
  "tasks (reviews_crew g pt ra) =
     (let (dc, da) = create_agents
            (''Collect product reviews for the top '' @ pt @ '', including '' @ ra @ ''. Be sure to avoide '' @ avoid_types g)
            (''Analyze collected reviews and generate markdown and CSV outputs for '' @ pt @ '', including '' @ ra @ ''. Be sure to avoide '' @ avoid_types g)
            [SerperDevTool, EXASearchTool, ScrapeWebsiteTool] [MarkdownTableTool, CSVWriterTool];
          (t1, t2, t3) = create_tasks g dc da pt ra
      in [t1, t2, t3])"
  by (simp add: reviews_crew_def Let_def split: prod.splits)

lemma contexts_precede_earlier:
  "contexts_precede seen ts \<Longrightarrow> i < length ts \<Longrightarrow> task_context (ts ! i) = Some cs \<Longrightarrow> c \<in> set cs
   \<Longrightarrow> c \<in> set seen \<or> (\<exists>j<i. ts ! j = c)"
proof (induction ts arbitrary: seen i)
  case Nil
  then show ?case by simp
next
  case (Cons t ts)
  show ?case
  proof (cases i)
    case 0
    with Cons.prems show ?thesis by (auto simp: list_all_iff)
  next
    case (Suc i')
    with Cons.prems have "c \<in> set (seen @ [t]) \<or> (\<exists>j<i'. ts ! j = c)"
      by (intro Cons.IH [of "seen @ [t]" i']) simp_all
    then show ?thesis
    proof (elim disjE exE conjE)
      assume "c \<in> set (seen @ [t])"
      then show ?thesis using Suc by auto
    next
      fix j assume "j < i'" "ts ! j = c"
      then have "Suc j < i \<and> (t # ts) ! Suc j = c" using Suc by simp
      then show ?thesis by blast
    qed
  qed
qed

lemma contexts_precede_not_later:
  "contexts_precede seen ts \<Longrightarrow> i < length ts \<Longrightarrow> task_context (ts ! i) = Some cs \<Longrightarrow> c \<in> set cs
   \<Longrightarrow> i \<le> j \<Longrightarrow> j < length ts \<Longrightarrow> ts ! j \<noteq> c"
proof (induction ts arbitrary: seen i j)
  case Nil
  then show ?case by simp
next
  case (Cons t ts)
  show ?case
  proof (cases i)
    case 0
    with Cons.prems have "c \<noteq> t" "c \<notin> set ts"
      by (auto simp: list_all_iff)
    with Cons.prems show ?thesis
      by (cases j) auto
  next
    case (Suc i')
    with Cons.prems obtain j' where j: "j = Suc j'"
      by (cases j) auto
    with Suc Cons.prems have "ts ! j' \<noteq> c"
      by (intro Cons.IH [of "seen @ [t]" i' j']) simp_all
    then show ?thesis by (simp add: j)
  qed
qed

text \<open>
  C8: in the crew the script builds, every task that a task names as context comes
  before it in the list of tasks and at no later place (no forward reference, no
  reference to itself); the list is the collection task and the two analysis tasks, the
  collection task names no context and each analysis task names the collection task
  only.
\<close>

theorem C8_contexts_precede:
  "contexts_precede [] (tasks (reviews_crew g pt ra)) \<and>
   (\<forall>i cs c. i < length (tasks (reviews_crew g pt ra)) \<and>
        task_context (tasks (reviews_crew g pt ra) ! i) = Some cs \<and> c \<in> set cs \<longrightarrow>
      (\<exists>j<i. tasks (reviews_crew g pt ra) ! j = c) \<and>
      (\<forall>j. i \<le> j \<and> j < length (tasks (reviews_crew g pt ra)) \<longrightarrow> tasks (reviews_crew g pt ra) ! j \<noteq> c)) \<and>
   length (tasks (reviews_crew g pt ra)) = 3 \<and>
   task_context (tasks (reviews_crew g pt ra) ! 0) = None \<and>
   task_context (tasks (reviews_crew g pt ra) ! 1) = Some [tasks (reviews_crew g pt ra) ! 0] \<and>
   task_context (tasks (reviews_crew g pt ra) ! 2) = Some [tasks (reviews_crew g pt ra) ! 0]"
proof -
  let ?ts = "tasks (reviews_crew g pt ra)"
  have shape: "contexts_precede [] ?ts \<and> length ?ts = 3 \<and> task_context (?ts ! 0) = None \<and>
      task_context (?ts ! 1) = Some [?ts ! 0] \<and> task_context (?ts ! 2) = Some [?ts ! 0]"
    by (simp add: tasks_reviews_crew create_agents_def create_tasks_def Let_def)
  then have ordered: "contexts_precede [] ?ts" by simp
  have "\<forall>i cs c. i < length ?ts \<and> task_context (?ts ! i) = Some cs \<and> c \<in> set cs \<longrightarrow>
      (\<exists>j<i. ?ts ! j = c) \<and> (\<forall>j. i \<le> j \<and> j < length ?ts \<longrightarrow> ?ts ! j \<noteq> c)"
  proof (intro allI impI, elim conjE)
    fix i cs c
    assume h: "i < length ?ts" "task_context (?ts ! i) = Some cs" "c \<in> set cs"
    have "c \<in> set [] \<or> (\<exists>j<i. ?ts ! j = c)"
      using ordered h by (rule contexts_precede_earlier)
    moreover have "\<forall>j. i \<le> j \<and> j < length ?ts \<longrightarrow> ?ts ! j \<noteq> c"
      using contexts_precede_not_later [OF ordered h] by blast
    ultimately show "(\<exists>j<i. ?ts ! j = c) \<and> (\<forall>j. i \<le> j \<and> j < length ?ts \<longrightarrow> ?ts ! j \<noteq> c)"
      by simp
  qed
  with shape show ?thesis by blast
qed

theorem C8_contexts_precede_witness:
  "contexts_precede [] (tasks (reviews_crew module_globals ''NETGEAR RAXE300 Reviews'' ''price range'')) \<and>
   (1::nat) < length (tasks (reviews_crew module_globals ''NETGEAR RAXE300 Reviews'' ''price range'')) \<and>
   task_context (tasks (reviews_crew module_globals ''NETGEAR RAXE300 Reviews'' ''price range'') ! 1)
     = Some [tasks (reviews_crew module_globals ''NETGEAR RAXE300 Reviews'' ''price range'') ! 0] \<and>
   (\<exists>j<1. tasks (reviews_crew module_globals ''NETGEAR RAXE300 Reviews'' ''price range'') ! j
     = tasks (reviews_crew module_globals ''NETGEAR RAXE300 Reviews'' ''price range'') ! 0)"
  using C8_contexts_precede [of module_globals "''NETGEAR RAXE300 Reviews''" "''price range''"]
  by simp

section \<open>Credentials\<close>

lemma construct_all_raised:
  "construct_all raises cs = (evs, Some e) \<Longrightarrow> \<exists>c\<in>set cs. raises c = Some e"
proof (induction cs arbitrary: evs)
  case Nil
  then show ?case by simp
next
  case (Cons c cs)
  then show ?case
    by (cases "raises c") (auto split: prod.splits)
qed

lemma construct_all_first:
  "take 1 (fst (construct_all raises (c # cs))) = [Construct c]"
  by (cases "raises c") (auto split: prod.splits)

lemma failure_of_Inl: "failure_of L = Some e \<Longrightarrow> \<exists>t. (t, Inl e) \<in> set L"
  by (induction L rule: failure_of.induct) auto

lemma run_sequential_Inl:
  "(t, Inl e) \<in> set (run_sequential exec prior ts) \<Longrightarrow> \<exists>ctx. exec t ctx = Inl e"
proof (induction ts arbitrary: prior)
  case Nil
  then show ?case by simp
next
  case (Cons t' ts)
  then show ?case
    by (cases "exec t' (context_outputs prior t')") auto
qed

lemma trace_main:
  "trace (main w) =
     Load_dotenv # fst (construct_all (new_raises w (load_dotenv (dotenv w) (environ w))) constructions)
       @ map (Execute \<circ> fst) (stage_log (main w))"
  by (simp add: main_def create_and_kickoff_crew_def kickoff_def Let_def
      split: prod.splits option.splits sum.splits)

lemma raised_main:
  "raised (main w) = Some e \<Longrightarrow>
     (\<exists>evs. construct_all (new_raises w (load_dotenv (dotenv w) (environ w))) constructions = (evs, Some e)) \<or>
     failure_of (run_sequential (execute w (load_dotenv (dotenv w) (environ w))) []
        (tasks (reviews_crew module_globals (product_type module_globals) (review_attributes module_globals)))) = Some e"
  by (auto simp: main_def create_and_kickoff_crew_def kickoff_def Let_def
      split: prod.splits option.splits sum.splits)

text \<open>
  C9, as the spec states it: the credentials are validated before the first use of a
  collaborator, and a missing one stops the program with an error of its own. The
  script validates nothing: with an empty environment and no \<^verbatim>\<open>.env\<close> file it
  constructs the search and scraping tools and its own two tools unchecked, and what
  stops it is the error that the language model client raises inside the first
  \<^verbatim>\<open>Agent\<close> constructor; no stage starts.
\<close>

theorem C9_collaborators_used_without_credentials:
  "load_dotenv (dotenv world_empty_environment) (environ world_empty_environment) ''OPENAI_API_KEY'' = None \<and>
   load_dotenv (dotenv world_empty_environment) (environ world_empty_environment) ''SERPER_API_KEY'' = None \<and>
   load_dotenv (dotenv world_empty_environment) (environ world_empty_environment) ''EXA_API_KEY'' = None \<and>
   trace (main world_empty_environment) =
     [Load_dotenv, Construct ''SerperDevTool'', Construct ''EXASearchTool'', Construct ''ScrapeWebsiteTool'',
      Construct ''MarkdownTableTool'', Construct ''CSVWriterTool'', Construct ''Agent''] \<and>
   stage_log (main world_empty_environment) = [] \<and>
   raised (main world_empty_environment) = Some ''Did not find openai_api_key'' \<and>
   new_raises world_empty_environment
     (load_dotenv (dotenv world_empty_environment) (environ world_empty_environment)) ''Agent''
     = Some ''Did not find openai_api_key''"
  by (simp add: main_def create_and_kickoff_crew_def constructions_def
      world_empty_environment_def load_dotenv_def agent_needs_key_def Let_def)

text \<open>
  C9, amended: the script loads \<^verbatim>\<open>.env\<close> into the environment and validates no
  credential: in every environment the first thing after \<^verbatim>\<open>load_dotenv()\<close> is the
  construction of the first collaborator, and an exception that leaves the script is
  one that a collaborator raised, in a constructor or in a stage.
\<close>

theorem C9_no_validation_before_use:
  "take 2 (trace (main w)) = [Load_dotenv, Construct ''SerperDevTool''] \<and>
   (\<forall>e. raised (main w) = Some e \<longrightarrow>
      (\<exists>c\<in>set constructions. new_raises w (load_dotenv (dotenv w) (environ w)) c = Some e) \<or>
      (\<exists>t ctx. execute w (load_dotenv (dotenv w) (environ w)) t ctx = Inl e))"
proof -
  let ?env = "load_dotenv (dotenv w) (environ w)"
  have "take 1 (fst (construct_all (new_raises w ?env) constructions)) = [Construct ''SerperDevTool'']"
    unfolding constructions_def by (rule construct_all_first)
  then have head: "take 2 (trace (main w)) = [Load_dotenv, Construct ''SerperDevTool'']"
    by (cases "fst (construct_all (new_raises w ?env) constructions)") (simp_all add: trace_main)
  have origin: "\<forall>e. raised (main w) = Some e \<longrightarrow>
      (\<exists>c\<in>set constructions. new_raises w ?env c = Some e) \<or>
      (\<exists>t ctx. execute w ?env t ctx = Inl e)"
  proof (intro allI impI)
    fix e assume "raised (main w) = Some e"
    then consider evs where "construct_all (new_raises w ?env) constructions = (evs, Some e)"
      | "failure_of (run_sequential (execute w ?env) []
          (tasks (reviews_crew module_globals (product_type module_globals) (review_attributes module_globals)))) = Some e"
      using raised_main by blast
    then show "(\<exists>c\<in>set constructions. new_raises w ?env c = Some e) \<or>
      (\<exists>t ctx. execute w ?env t ctx = Inl e)"
    proof cases
      case 1
      then show ?thesis using construct_all_raised by fast
    next
      case 2
      then obtain t where "(t, Inl e) \<in> set (run_sequential (execute w ?env) []
          (tasks (reviews_crew module_globals (product_type module_globals) (review_attributes module_globals))))"
        using failure_of_Inl by blast
      then show ?thesis using run_sequential_Inl by fast
    qed
  qed
  from head origin show ?thesis by blast
qed

theorem C9_no_validation_before_use_witness:
  "raised (main world_empty_environment) = Some ''Did not find openai_api_key'' \<and>
   take 2 (trace (main world_empty_environment)) = [Load_dotenv, Construct ''SerperDevTool''] \<and>
   (\<exists>c\<in>set constructions. new_raises world_empty_environment
        (load_dotenv (dotenv world_empty_environment) (environ world_empty_environment)) c
      = Some ''Did not find openai_api_key'')"
proof -
  have r: "raised (main world_empty_environment) = Some ''Did not find openai_api_key''"
    by (simp add: main_def create_and_kickoff_crew_def constructions_def
      world_empty_environment_def load_dotenv_def agent_needs_key_def Let_def)
  have n: "\<not> (\<exists>t ctx. execute world_empty_environment
        (load_dotenv (dotenv world_empty_environment) (environ world_empty_environment)) t ctx
          = Inl ''Did not find openai_api_key'')"
    by (simp add: world_empty_environment_def)
  show ?thesis
    using r n C9_no_validation_before_use [of world_empty_environment] by blast
qed

section \<open>Default file names\<close>

lemma assign_keeps_defaults:
  "MarkdownTableTool_file_name (assign x v m) = MarkdownTableTool_file_name m \<and>
   MarkdownTableTool_append (assign x v m) = MarkdownTableTool_append m \<and>
   CSVWriterTool_file_name (assign x v m) = CSVWriterTool_file_name m"
  by (simp add: assign_def)

lemma assign_all_keeps_defaults:
  "MarkdownTableTool_file_name (assign_all xs m) = MarkdownTableTool_file_name m \<and>
   MarkdownTableTool_append (assign_all xs m) = MarkdownTableTool_append m \<and>
   CSVWriterTool_file_name (assign_all xs m) = CSVWriterTool_file_name m"
proof (induction xs arbitrary: m)
  case Nil
  then show ?case by (simp add: assign_all_def)
next
  case (Cons xv xs)
  obtain x v where xv: "xv = (x, v)" by (cases xv)
  have "assign_all (xv # xs) m = assign_all xs (assign x v m)"
    by (simp add: assign_all_def xv)
  then show ?case
    using Cons.IH [of "assign x v m"] by (simp add: assign_keeps_defaults)
qed

lemma assign_all_snoc: "assign_all (xs @ [(x, v)]) m = assign x v (assign_all xs m)"
  by (simp add: assign_all_def)

text \<open>
  C10: a call of \<^verbatim>\<open>MarkdownTableTool._run\<close> without \<^verbatim>\<open>file_name\<close> writes the table to
  \<^verbatim>\<open>router_review.md\<close> and to no other file, and says so in its message; a call of
  \<^verbatim>\<open>CSVWriterTool._run\<close> without \<^verbatim>\<open>file_name\<close> writes to \<^verbatim>\<open>router_review.csv\<close> and to no
  other file; and this after any assignments to the globals that follow the class
  definitions, also ones that give \<^verbatim>\<open>markdown_output\<close> and \<^verbatim>\<open>csv_output\<close> new values:
  the globals change, the destinations of these calls do not.
\<close>

theorem C10_defaults_fixed_at_definition:
  assumes "\<not> refused fs ''router_review.md''" and "\<not> refused fs ''router_review.csv''"
  shows "call_MarkdownTableTool_run (assign_all later (define_tools module_globals)) to_md fs data None None =
           (fs\<lparr>files := (files fs)(''router_review.md'' \<mapsto> to_md (DataFrame data))\<rparr>,
            Inr ''Markdown table generated and saved as router_review.md'') \<and>
         call_CSVWriterTool_run (assign_all later (define_tools module_globals)) to_csv_text fs data None =
           (fs\<lparr>files := (files fs)(''router_review.csv'' \<mapsto> to_csv_text (DataFrame data))\<rparr>,
            Inr ''CSV file generated and saved as router_review.csv'') \<and>
         markdown_output (globals_of (assign_all (later @ [(''markdown_output'', v)]) (define_tools module_globals))) = v \<and>
         csv_output (globals_of (assign_all (later @ [(''csv_output'', v)]) (define_tools module_globals))) = v \<and>
         call_MarkdownTableTool_run (assign_all (later @ [(''markdown_output'', v)]) (define_tools module_globals))
             to_md fs data None None =
           call_MarkdownTableTool_run (define_tools module_globals) to_md fs data None None \<and>
         call_CSVWriterTool_run (assign_all (later @ [(''csv_output'', v)]) (define_tools module_globals))
             to_csv_text fs data None =
           call_CSVWriterTool_run (define_tools module_globals) to_csv_text fs data None"
proof -
  have d: "MarkdownTableTool_file_name (assign_all xs (define_tools module_globals)) = ''router_review.md''"
    "MarkdownTableTool_append (assign_all xs (define_tools module_globals)) = False"
    "CSVWriterTool_file_name (assign_all xs (define_tools module_globals)) = ''router_review.csv''" for xs
    by (simp_all add: assign_all_keeps_defaults define_tools_def module_globals_def)
  have md_run: "MarkdownTableTool_run to_md fs data ''router_review.md'' False =
           (fs\<lparr>files := (files fs)(''router_review.md'' \<mapsto> to_md (DataFrame data))\<rparr>,
            Inr ''Markdown table generated and saved as router_review.md'')"
    using assms(1) by (simp add: MarkdownTableTool_run_def Let_def overwrite_ops_result)
  have csv_run: "CSVWriterTool_run to_csv_text fs data ''router_review.csv'' =
           (fs\<lparr>files := (files fs)(''router_review.csv'' \<mapsto> to_csv_text (DataFrame data))\<rparr>,
            Inr ''CSV file generated and saved as router_review.csv'')"
    using assms(2) by (simp add: CSVWriterTool_run_def Let_def csv_ops_result)
  have md: "call_MarkdownTableTool_run (assign_all xs (define_tools module_globals)) to_md fs data None None =
           (fs\<lparr>files := (files fs)(''router_review.md'' \<mapsto> to_md (DataFrame data))\<rparr>,
            Inr ''Markdown table generated and saved as router_review.md'')" for xs
    by (simp add: call_MarkdownTableTool_run_def d md_run)
  have csv: "call_CSVWriterTool_run (assign_all xs (define_tools module_globals)) to_csv_text fs data None =
           (fs\<lparr>files := (files fs)(''router_review.csv'' \<mapsto> to_csv_text (DataFrame data))\<rparr>,
            Inr ''CSV file generated and saved as router_review.csv'')" for xs
    by (simp add: call_CSVWriterTool_run_def d csv_run)
  have g1: "markdown_output (globals_of (assign_all (later @ [(''markdown_output'', v)]) (define_tools module_globals))) = v"
    by (simp add: assign_all_snoc assign_def)
  have g2: "csv_output (globals_of (assign_all (later @ [(''csv_output'', v)]) (define_tools module_globals))) = v"
    by (simp add: assign_all_snoc assign_def)
  have nil: "assign_all [] (define_tools module_globals) = define_tools module_globals"
    by (simp add: assign_all_def)
  have md_same: "call_MarkdownTableTool_run (assign_all (later @ [(''markdown_output'', v)]) (define_tools module_globals))
             to_md fs data None None =
           call_MarkdownTableTool_run (define_tools module_globals) to_md fs data None None"
    using md [of "later @ [(''markdown_output'', v)]"] md [of "[]"] by (simp add: nil)
  have csv_same: "call_CSVWriterTool_run (assign_all (later @ [(''csv_output'', v)]) (define_tools module_globals))
             to_csv_text fs data None =
           call_CSVWriterTool_run (define_tools module_globals) to_csv_text fs data None"
    using csv [of "later @ [(''csv_output'', v)]"] csv [of "[]"] by (simp add: nil)
  from md [of later] csv [of later] g1 g2 md_same csv_same show ?thesis by blast
qed

theorem C10_defaults_fixed_at_definition_witness:
  "\<not> refused empty_fs ''router_review.md'' \<and> \<not> refused empty_fs ''router_review.csv'' \<and>
   markdown_output (globals_of (assign_all later_assignments (define_tools module_globals)))
     = ''hosting_providers_review.md'' \<and>
   files (fst (call_MarkdownTableTool_run (assign_all later_assignments (define_tools module_globals))
                 to_markdown empty_fs one_record None None)) ''router_review.md''
     = Some (to_markdown (DataFrame one_record)) \<and>
   files (fst (call_MarkdownTableTool_run (assign_all later_assignments (define_tools module_globals))
                 to_markdown empty_fs one_record None None)) ''hosting_providers_review.md''
     = None \<and>
   files (fst (call_CSVWriterTool_run (assign_all later_assignments (define_tools module_globals))
                 to_csv empty_fs one_record None)) ''router_review.csv''
     = Some (to_csv (DataFrame one_record)) \<and>
   files (fst (call_CSVWriterTool_run (assign_all later_assignments (define_tools module_globals))
                 to_csv empty_fs one_record None)) ''hosting_providers_review.csv''
     = None"
proof -
  have h1: "\<not> refused empty_fs ''router_review.md''" and h2: "\<not> refused empty_fs ''router_review.csv''"
    by (simp_all add: empty_fs_def)
  have e: "files empty_fs = Map.empty"
    by (simp add: empty_fs_def)
  have g: "markdown_output (globals_of (assign_all later_assignments (define_tools module_globals)))
     = ''hosting_providers_review.md''"
    by (simp add: later_assignments_def assign_all_def assign_def define_tools_def module_globals_def)
  show ?thesis
    using h1 h2 g
      C10_defaults_fixed_at_definition
        [OF h1 h2, where later = later_assignments and to_md = to_markdown and to_csv_text = to_csv
           and data = one_record]
    by (simp add: e)
qed

section \<open>Pipes in markdown cells\<close>

lemma gfm_split_not_Nil: "gfm_split cur s \<noteq> []"
  by (induction cur s rule: gfm_split.induct) auto

lemma gfm_split_length:
  "CHR 0x5C \<notin> set s \<Longrightarrow> length (gfm_split cur s) = Suc (count_list s CHR ''|'')"
  by (induction cur s rule: gfm_split.induct) auto

lemma gfm_split_pipe_first: "gfm_split cur (CHR ''|'' # s) = cur # gfm_split [] s"
  by (cases s) auto

lemma gfm_split_pipe_last:
  "CHR 0x5C \<notin> set s \<Longrightarrow> last (gfm_split cur (s @ ''|'')) = []"
proof (induction s arbitrary: cur)
  case Nil
  then show ?case by simp
next
  case (Cons c s)
  obtain d ds where tl: "s @ ''|'' = d # ds"
    by (cases "s @ ''|''") auto
  show ?case
  proof (cases "c = CHR ''|''")
    case True
    then have "gfm_split cur ((c # s) @ ''|'') = cur # gfm_split [] (s @ ''|'')"
      by (simp add: gfm_split_pipe_first)
    then show ?thesis
      using Cons gfm_split_not_Nil [of "[]" "s @ ''|''"] by simp
  next
    case False
    moreover have "c \<noteq> CHR 0x5C"
      using Cons.prems by auto
    ultimately have "gfm_split cur ((c # s) @ ''|'') = gfm_split (cur @ [c]) (s @ ''|'')"
      using tl by simp
    then show ?thesis using Cons by simp
  qed
qed

lemma gfm_row_cells_length:
  assumes "CHR 0x5C \<notin> set mid"
  shows "length (gfm_row_cells (''|'' @ mid @ ''|'')) = Suc (count_list mid CHR ''|'')"
proof -
  let ?rest = "gfm_split [] (mid @ ''|'')"
  have parts: "gfm_split [] (''|'' @ mid @ ''|'') = [] # ?rest"
    using gfm_split_pipe_first [of "[]" "mid @ ''|''"] by simp
  have ne: "?rest \<noteq> []" by (rule gfm_split_not_Nil)
  have lst: "last ?rest = []" using assms by (rule gfm_split_pipe_last)
  have len: "length ?rest = Suc (count_list (mid @ ''|'') CHR ''|'')"
    using assms by (intro gfm_split_length) simp
  have "gfm_row_cells (''|'' @ mid @ ''|'') = butlast ?rest"
    unfolding gfm_row_cells_def parts using ne lst by (simp add: blank_def Let_def)
  then show ?thesis using len by simp
qed

lemma count_list_join:
  "xs \<noteq> [] \<Longrightarrow>
   count_list (join sep xs) c = (length xs - 1) * count_list sep c + sum_list (map (\<lambda>x. count_list x c) xs)"
  by (induction sep xs rule: join.induct) auto

lemma count_list_replicate_other: "c \<noteq> d \<Longrightarrow> count_list (replicate n c) d = 0"
  by (induction n) auto

lemma no_backslash_join:
  "CHR 0x5C \<notin> set sep \<Longrightarrow> \<forall>x\<in>set xs. CHR 0x5C \<notin> set x \<Longrightarrow> CHR 0x5C \<notin> set (join sep xs)"
  by (induction sep xs rule: join.induct) auto

lemma no_backslash_padded:
  "CHR 0x5C \<notin> set c \<Longrightarrow> CHR 0x5C \<notin> set ('' '' @ ljust w c @ '' '')"
  by (auto simp: ljust_def)

lemma md_lines_row:
  assumes "i < length (rows df)"
  shows "md_lines df ! (i + 2) =
         pipe_row (md_widths (columns df) (map (map md_cell) (rows df))) (map md_cell (rows df ! i))"
proof -
  have "rows df \<noteq> []" using assms by auto
  then show ?thesis using assms
    by (simp add: md_lines_def Let_def)
qed

lemma pipe_row_cells:
  assumes "length ws = length cells" and "cells \<noteq> []" and "\<forall>c\<in>set cells. CHR 0x5C \<notin> set c"
  shows "length (gfm_row_cells (pipe_row ws cells)) =
         length cells + sum_list (map (\<lambda>c. count_list c CHR ''|'') cells)"
proof -
  let ?padded = "map (\<lambda>(w, c). '' '' @ ljust w c @ '' '') (zip ws cells)"
  let ?mid = "join ''|'' ?padded"
  have ne: "?padded \<noteq> []"
    using assms(1,2) by (cases ws; cases cells) auto
  have len: "length ?padded = length cells"
    using assms(1) by simp
  have "\<forall>x\<in>set ?padded. CHR 0x5C \<notin> set x"
  proof
    fix x assume "x \<in> set ?padded"
    then obtain w c where x: "x = '' '' @ ljust w c @ '' ''" and "(w, c) \<in> set (zip ws cells)"
      by auto
    then have "c \<in> set cells" by (rule_tac set_zip_rightD)
    with assms(3) show "CHR 0x5C \<notin> set x"
      unfolding x by (intro no_backslash_padded) simp
  qed
  then have nb: "CHR 0x5C \<notin> set ?mid"
    by (intro no_backslash_join) simp_all
  have "map (\<lambda>x. count_list x CHR ''|'') ?padded = map (\<lambda>c. count_list c CHR ''|'') (map snd (zip ws cells))"
    by (simp add: split_def ljust_def count_list_replicate_other)
  also have "\<dots> = map (\<lambda>c. count_list c CHR ''|'') cells"
    using assms(1) by (simp add: map_snd_zip)
  finally have sum: "sum_list (map (\<lambda>x. count_list x CHR ''|'') ?padded) =
      sum_list (map (\<lambda>c. count_list c CHR ''|'') cells)"
    by simp
  have "count_list ?mid CHR ''|'' = (length ?padded - 1) * count_list ''|'' CHR ''|''
          + sum_list (map (\<lambda>x. count_list x CHR ''|'') ?padded)"
    using ne by (rule count_list_join)
  then have cnt: "count_list ?mid CHR ''|'' = length cells - 1 + sum_list (map (\<lambda>c. count_list c CHR ''|'') cells)"
    by (simp only: sum len) simp
  have "length (gfm_row_cells (pipe_row ws cells)) = Suc (count_list ?mid CHR ''|'')"
    unfolding pipe_row_def using nb by (rule gfm_row_cells_length)
  then show ?thesis
    using cnt assms(2) by (cases cells) simp_all
qed

lemma tabulate_text_row:
  "tabulate_text df \<Longrightarrow> i < length (rows df) \<Longrightarrow>
   length (rows df ! i) = length (columns df) \<and> columns df \<noteq> []"
  by (auto simp: tabulate_text_def list_all_length)

text \<open>
  C2, as the spec states it: a pipe in a cell is escaped, so that the row still has the
  right number of cells when it is parsed. Nothing escapes it: the record with the one
  cell \<^verbatim>\<open>x|y\<close> is written as the row \<^verbatim>\<open>| x|y |\<close>, which a parser cuts into two
  cells under a header of one.
\<close>

theorem C2_pipe_splits_the_row:
  "tabulate_text (DataFrame pipe_record) \<and>
   to_markdown (DataFrame pipe_record) = ''| a   |'' @ [newline] @ ''|:----|'' @ [newline] @ ''| x|y |'' \<and>
   length (columns (DataFrame pipe_record)) = 1 \<and>
   gfm_row_cells (md_lines (DataFrame pipe_record) ! 0) = ['' a   ''] \<and>
   gfm_row_cells (md_lines (DataFrame pipe_record) ! 2) = ['' x'', ''y '']"
  by (simp add: pipe_record_def DataFrame_def dicts_to_array_def to_markdown_def md_lines_def
      md_widths_def column_width_def column_cells_def pipe_row_def pipe_line_def ljust_def
      md_cell_def newline_def tabulate_text_def plain_def is_printable_def reads_as_text_def
      gfm_row_cells_def blank_def)

text \<open>
  C2, amended: the markdown rendering writes cell text as it is, with no escaping. In a
  table of text columns, a row whose cells hold no backslash is cut by a markdown table
  parser into as many cells as there are columns plus one for every pipe in its cells:
  the count is right exactly for the rows without a pipe.
\<close>

theorem C2_pipes_not_escaped:
  assumes "tabulate_text df" and "i < length (rows df)"
    and "\<forall>c\<in>set (rows df ! i). CHR 0x5C \<notin> set (md_cell c)"
  shows "length (gfm_row_cells (md_lines df ! (i + 2))) =
         length (columns df) + sum_list (map (\<lambda>c. count_list (md_cell c) CHR ''|'') (rows df ! i))"
proof -
  let ?ws = "md_widths (columns df) (map (map md_cell) (rows df))"
  let ?cells = "map md_cell (rows df ! i)"
  have row: "length (rows df ! i) = length (columns df)" "columns df \<noteq> []"
    using tabulate_text_row [OF assms(1,2)] by simp_all
  have "length ?ws = length ?cells"
    using row by (simp add: md_widths_def)
  moreover have "?cells \<noteq> []"
    using row by auto
  moreover have "\<forall>c\<in>set ?cells. CHR 0x5C \<notin> set c"
    using assms(3) by simp
  ultimately have "length (gfm_row_cells (pipe_row ?ws ?cells)) =
      length ?cells + sum_list (map (\<lambda>c. count_list c CHR ''|'') ?cells)"
    by (rule pipe_row_cells)
  moreover have "md_lines df ! (i + 2) = pipe_row ?ws ?cells"
    using assms(2) by (rule md_lines_row)
  ultimately show ?thesis
    using row by (simp add: comp_def)
qed

theorem C2_pipes_not_escaped_witness:
  "tabulate_text (DataFrame pipe_record) \<and> (0::nat) < length (rows (DataFrame pipe_record)) \<and>
   length (gfm_row_cells (md_lines (DataFrame pipe_record) ! 2)) = 2 \<and>
   length (columns (DataFrame pipe_record)) = 1"
proof -
  have df: "DataFrame pipe_record = \<lparr>columns = [''a''], rows = [[Some ''x|y'']]\<rparr>"
    by (simp add: pipe_record_def DataFrame_def dicts_to_array_def)
  have h1: "tabulate_text (DataFrame pipe_record)"
    by (simp add: df tabulate_text_def plain_def is_printable_def reads_as_text_def md_cell_def)
  have h2: "(0::nat) < length (rows (DataFrame pipe_record))"
    by (simp add: df)
  have h3: "\<forall>c\<in>set (rows (DataFrame pipe_record) ! 0). CHR 0x5C \<notin> set (md_cell c)"
    by (simp add: df md_cell_def)
  show ?thesis
    using h1 h2 C2_pipes_not_escaped [OF h1 h2 h3] by (simp add: df md_cell_def numeral_2_eq_2)
qed

section \<open>Writing CSV and reading it back\<close>

lemma csv_reader_unquoted:
  "\<not> list_ex csv_special s \<Longrightarrow>
   csv_reader IN_FIELD fld flds (s @ rest) = csv_reader IN_FIELD (fld @ s) flds rest"
proof (induction s arbitrary: fld)
  case Nil
  then show ?case by simp
next
  case (Cons c s)
  then have "csv_step IN_FIELD c = Add IN_FIELD"
    by (simp add: csv_special_def)
  with Cons show ?case by simp
qed

lemma csv_escape_Cons:
  "csv_escape (c # s) = (if c = dquote then [dquote, dquote] else [c]) @ csv_escape s"
  by (simp add: csv_escape_def)

lemma csv_reader_quoted:
  "csv_reader IN_QUOTED_FIELD fld flds (csv_escape s @ dquote # rest) =
   csv_reader QUOTE_IN_QUOTED_FIELD (fld @ s) flds rest"
proof (induction s arbitrary: fld)
  case Nil
  then show ?case by (simp add: csv_escape_def)
next
  case (Cons c s)
  show ?case
  proof (cases "c = dquote")
    case True
    have "csv_reader IN_QUOTED_FIELD fld flds (csv_escape (c # s) @ dquote # rest) =
          csv_reader IN_QUOTED_FIELD (fld @ [c]) flds (csv_escape s @ dquote # rest)"
      using True by (simp add: csv_escape_Cons)
    then show ?thesis using Cons.IH [of "fld @ [c]"] by simp
  next
    case False
    have "csv_reader IN_QUOTED_FIELD fld flds (csv_escape (c # s) @ dquote # rest) =
          csv_reader IN_QUOTED_FIELD (fld @ [c]) flds (csv_escape s @ dquote # rest)"
      using False by (simp add: csv_escape_Cons)
    then show ?thesis using Cons.IH [of "fld @ [c]"] by simp
  qed
qed

lemma csv_field_then_comma:
  "csv_reader START_FIELD [] flds (csv_field s @ CHR '','' # rest) =
   csv_reader START_FIELD [] (flds @ [s]) rest"
proof (cases "list_ex csv_special s")
  case True
  have "csv_reader START_FIELD [] flds (csv_field s @ CHR '','' # rest) =
        csv_reader IN_QUOTED_FIELD [] flds (csv_escape s @ dquote # CHR '','' # rest)"
    using True by (simp add: csv_field_def dquote_def)
  also have "\<dots> = csv_reader QUOTE_IN_QUOTED_FIELD ([] @ s) flds (CHR '','' # rest)"
    by (rule csv_reader_quoted)
  finally show ?thesis by (simp add: dquote_def)
next
  case False
  show ?thesis
  proof (cases s)
    case Nil
    then show ?thesis by (simp add: csv_field_def dquote_def)
  next
    case (Cons c s')
    with False have c: "csv_start_field c = Add IN_FIELD" and s': "\<not> list_ex csv_special s'"
      by (simp_all add: csv_special_def)
    have "csv_reader START_FIELD [] flds (csv_field s @ CHR '','' # rest) =
          csv_reader IN_FIELD [c] flds (s' @ CHR '','' # rest)"
      using False Cons c by (simp add: csv_field_def)
    also have "\<dots> = csv_reader IN_FIELD ([c] @ s') flds (CHR '','' # rest)"
      using s' by (rule csv_reader_unquoted)
    finally show ?thesis using Cons by simp
  qed
qed

lemma csv_field_then_newline:
  "csv_reader START_FIELD [] flds (csv_field s @ newline # rest) =
   (flds @ [s]) # csv_reader START_RECORD [] [] rest"
proof (cases "list_ex csv_special s")
  case True
  have "csv_reader START_FIELD [] flds (csv_field s @ newline # rest) =
        csv_reader IN_QUOTED_FIELD [] flds (csv_escape s @ dquote # newline # rest)"
    using True by (simp add: csv_field_def dquote_def)
  also have "\<dots> = csv_reader QUOTE_IN_QUOTED_FIELD ([] @ s) flds (newline # rest)"
    by (rule csv_reader_quoted)
  finally show ?thesis by (simp add: dquote_def newline_def)
next
  case False
  show ?thesis
  proof (cases s)
    case Nil
    then show ?thesis by (simp add: csv_field_def dquote_def newline_def)
  next
    case (Cons c s')
    with False have c: "csv_start_field c = Add IN_FIELD" and s': "\<not> list_ex csv_special s'"
      by (simp_all add: csv_special_def)
    have "csv_reader START_FIELD [] flds (csv_field s @ newline # rest) =
          csv_reader IN_FIELD [c] flds (s' @ newline # rest)"
      using False Cons c by (simp add: csv_field_def)
    also have "\<dots> = csv_reader IN_FIELD ([c] @ s') flds (newline # rest)"
      using s' by (rule csv_reader_unquoted)
    finally show ?thesis using Cons by (simp add: newline_def)
  qed
qed

lemma csv_fields_then_newline:
  "row \<noteq> [] \<Longrightarrow>
   csv_reader START_FIELD [] flds (join '','' (map csv_field row) @ newline # rest) =
   (flds @ row) # csv_reader START_RECORD [] [] rest"
proof (induction row arbitrary: flds)
  case Nil
  then show ?case by simp
next
  case (Cons s row)
  show ?case
  proof (cases row)
    case Nil
    then show ?thesis by (simp add: csv_field_then_newline)
  next
    case (Cons s2 row2)
    have "join '','' (map csv_field (s # row)) @ newline # rest =
          csv_field s @ CHR '','' # (join '','' (map csv_field row) @ newline # rest)"
      by (simp add: Cons)
    then have "csv_reader START_FIELD [] flds (join '','' (map csv_field (s # row)) @ newline # rest) =
          csv_reader START_FIELD [] (flds @ [s]) (join '','' (map csv_field row) @ newline # rest)"
      by (simp only: csv_field_then_comma)
    also have "\<dots> = ((flds @ [s]) @ row) # csv_reader START_RECORD [] [] rest"
      by (rule Cons.IH) (simp add: Cons)
    finally show ?thesis by simp
  qed
qed

lemma csv_start_record_as_field:
  "c \<noteq> CHR 0x0A \<Longrightarrow> c \<noteq> CHR 0x0D \<Longrightarrow>
   csv_reader START_RECORD fld flds (c # cs) = csv_reader START_FIELD fld flds (c # cs)"
  by simp

lemma csv_field_first:
  "csv_field s = [] \<and> s = [] \<or>
   (\<exists>c cs. csv_field s = c # cs \<and> c \<noteq> CHR 0x0A \<and> c \<noteq> CHR 0x0D)"
proof (cases "list_ex csv_special s")
  case True
  then show ?thesis by (simp add: csv_field_def dquote_def)
next
  case False
  then show ?thesis
    by (cases s) (auto simp: csv_field_def csv_special_def)
qed

lemma csv_line_first:
  assumes "row \<noteq> []" and "row \<noteq> [[]]"
  shows "\<exists>c cs. join '','' (map csv_field row) @ newline # rest = c # cs \<and> c \<noteq> CHR 0x0A \<and> c \<noteq> CHR 0x0D"
proof -
  obtain s row' where row: "row = s # row'"
    using assms(1) by (cases row) auto
  show ?thesis
  proof (cases row')
    case Nil
    with row assms(2) have "s \<noteq> []" by simp
    with csv_field_first [of s] obtain c cs where "csv_field s = c # cs" "c \<noteq> CHR 0x0A" "c \<noteq> CHR 0x0D"
      by auto
    then show ?thesis by (simp add: row Nil)
  next
    case (Cons s2 row2)
    from csv_field_first [of s] show ?thesis
    proof
      assume "csv_field s = [] \<and> s = []"
      then have "join '','' (map csv_field row) = CHR '','' # join '','' (map csv_field row')"
        by (simp add: row Cons csv_field_def)
      then show ?thesis by simp
    next
      assume "\<exists>c cs. csv_field s = c # cs \<and> c \<noteq> CHR 0x0A \<and> c \<noteq> CHR 0x0D"
      then show ?thesis by (auto simp: row Cons)
    qed
  qed
qed

lemma csv_reader_writerow:
  "csv_reader START_RECORD [] [] (csv_writerow row @ rest) = row # csv_reader START_RECORD [] [] rest"
proof -
  consider "row = []" | "row = [[]]" | "row \<noteq> []" "row \<noteq> [[]]"
    by blast
  then show ?thesis
  proof cases
    case 1
    then show ?thesis by (simp add: csv_writerow_def newline_def)
  next
    case 2
    then show ?thesis by (simp add: csv_writerow_def newline_def dquote_def)
  next
    case 3
    then obtain c cs where line: "join '','' (map csv_field row) @ newline # rest = c # cs"
      and c: "c \<noteq> CHR 0x0A" "c \<noteq> CHR 0x0D"
      using csv_line_first [of row rest] by blast
    have "csv_reader START_RECORD [] [] (csv_writerow row @ rest) =
          csv_reader START_RECORD [] [] (join '','' (map csv_field row) @ newline # rest)"
      using 3 by (simp add: csv_writerow_def)
    also have "\<dots> = csv_reader START_FIELD [] [] (join '','' (map csv_field row) @ newline # rest)"
      unfolding line using c by (rule csv_start_record_as_field)
    also have "\<dots> = ([] @ row) # csv_reader START_RECORD [] [] rest"
      using 3(1) by (rule csv_fields_then_newline)
    finally show ?thesis by simp
  qed
qed

lemma csv_parse_writerows:
  "csv_parse (concat (map csv_writerow table)) = table"
proof -
  have "csv_reader START_RECORD [] [] (concat (map csv_writerow table) @ rest) =
        table @ csv_reader START_RECORD [] [] rest" for rest
  proof (induction table)
    case Nil
    then show ?case by simp
  next
    case (Cons row table)
    then show ?case by (simp add: csv_reader_writerow)
  qed
  from this [of "[]"] show ?thesis by (simp add: csv_parse_def)
qed

lemma csv_parse_to_csv: "csv_parse (to_csv df) = csv_table df"
  by (simp add: to_csv_def csv_parse_writerows)

lemma column_of_key:
  assumes "r \<in> set data" and "(k, v) \<in> set r"
  shows "\<exists>j<length (columns (DataFrame data)). columns (DataFrame data) ! j = k"
proof -
  have "k \<in> set (concat (map (map fst) data))"
    using assms by force
  then have "k \<in> set (columns (DataFrame data))"
    by (simp add: columns_DataFrame set_first_seen)
  then show ?thesis by (simp add: in_set_conv_nth)
qed

lemma map_upt_nth: "map (\<lambda>j. g (xs ! j)) [0..<length xs] = map g xs"
  by (rule nth_equalityI) simp_all

lemma rows_values_to_text:
  "rows (values_to_text (DataFrame data)) =
     map (\<lambda>r. map (\<lambda>k. Some (value_text (dtype_of (map (\<lambda>r'. map_of r' k) data)) (map_of r k)))
                 (columns (DataFrame data))) data"
proof -
  let ?cols = "columns (DataFrame data)"
  have col: "map (\<lambda>r'. r' ! j) (rows (DataFrame data)) = map (\<lambda>r'. map_of r' (?cols ! j)) data"
    if "j < length ?cols" for j
    using that by (simp add: rows_DataFrame)
  have "map (\<lambda>j. Some (value_text (dtype_of (map (\<lambda>r'. r' ! j) (rows (DataFrame data))))
                        (map (map_of r) ?cols ! j))) [0..<length ?cols] =
        map (\<lambda>k. Some (value_text (dtype_of (map (\<lambda>r'. map_of r' k) data)) (map_of r k))) ?cols" for r
  proof -
    have "map (\<lambda>j. Some (value_text (dtype_of (map (\<lambda>r'. r' ! j) (rows (DataFrame data))))
                        (map (map_of r) ?cols ! j))) [0..<length ?cols] =
        map (\<lambda>j. (\<lambda>k. Some (value_text (dtype_of (map (\<lambda>r'. map_of r' k) data)) (map_of r k))) (?cols ! j))
            [0..<length ?cols]"
      by (rule map_cong) (simp_all add: col)
    also have "\<dots> = map (\<lambda>k. Some (value_text (dtype_of (map (\<lambda>r'. map_of r' k) data)) (map_of r k))) ?cols"
      by (rule map_upt_nth)
    finally show ?thesis .
  qed
  then show ?thesis
    by (simp add: values_to_text_def rows_DataFrame [of data] comp_def)
qed

lemma csv_parse_to_csv_values:
  "csv_parse (to_csv_values (DataFrame data)) =
     columns (DataFrame data) #
     map (\<lambda>r. map (\<lambda>k. value_text (dtype_of (map (\<lambda>r'. map_of r' k) data)) (map_of r k))
                 (columns (DataFrame data))) data"
proof -
  have "columns (values_to_text (DataFrame data)) = columns (DataFrame data)"
    by (simp add: values_to_text_def)
  then show ?thesis
    by (simp add: to_csv_values_def csv_parse_to_csv csv_table_def rows_values_to_text csv_cell_def comp_def)
qed

text \<open>
  C3, as the spec states it: for every record list the values come back from the CSV
  text exactly. Two records of numbers with different keys do not: each column has a
  number and a missing value, pandas makes it a column of floats, and the numbers
  \<^verbatim>\<open>1\<close> and \<^verbatim>\<open>2\<close> are written, and read back, as \<^verbatim>\<open>1.0\<close> and \<^verbatim>\<open>2.0\<close>.
\<close>

theorem C3_integer_comes_back_as_float:
  "files (fst (CSVWriterTool_run to_csv_values empty_fs numbers_record ''out.csv'')) ''out.csv''
     = Some (''a,b'' @ [newline] @ ''1.0,'' @ [newline] @ '',2.0'' @ [newline]) \<and>
   csv_parse (''a,b'' @ [newline] @ ''1.0,'' @ [newline] @ '',2.0'' @ [newline])
     = [[''a'', ''b''], [''1.0'', []], [[], ''2.0'']] \<and>
   str_int 1 = ''1'' \<and> str_int 2 = ''2''"
proof -
  have df: "DataFrame numbers_record = \<lparr>columns = [''a'', ''b''], rows = [[Some (Number 1), None], [None, Some (Number 2)]]\<rparr>"
    by (simp add: numbers_record_def DataFrame_def dicts_to_array_def)
  have one: "str_int 1 = ''1''" and two: "str_int 2 = ''2''"
    by (simp_all add: str_int_def str_nat.simps)
  have "values_to_text (DataFrame numbers_record) =
        \<lparr>columns = [''a'', ''b''], rows = [[Some ''1.0'', Some []], [Some [], Some ''2.0'']]\<rparr>"
    by (simp add: df values_to_text_def dtype_of_def is_number_def is_null_def value_text_def one two upt_rec)
  then have csv: "to_csv_values (DataFrame numbers_record) = ''a,b'' @ [newline] @ ''1.0,'' @ [newline] @ '',2.0'' @ [newline]"
    by (simp add: to_csv_values_def to_csv_def csv_table_def csv_writerow_def csv_field_def csv_special_def
        csv_cell_def dquote_def)
  have "\<not> refused empty_fs ''out.csv''"
    by (simp add: empty_fs_def)
  then have written: "files (fst (CSVWriterTool_run to_csv_values empty_fs numbers_record ''out.csv'')) ''out.csv''
     = Some (''a,b'' @ [newline] @ ''1.0,'' @ [newline] @ '',2.0'' @ [newline])"
    by (simp add: CSVWriterTool_run_files csv)
  have parsed: "csv_parse (''a,b'' @ [newline] @ ''1.0,'' @ [newline] @ '',2.0'' @ [newline])
     = [[''a'', ''b''], [''1.0'', []], [[], ''2.0'']]"
    by (simp add: csv_parse_def newline_def dquote_def)
  from written parsed one two show ?thesis by blast
qed

text \<open>
  C3, amended: for every list of records whose values are text, null or whole numbers
  (up to \<^verbatim>\<open>2**53\<close> in size), the text that the CSV tool writes parses back, with a
  standard CSV parser, to the header of column names followed by one row per record, and
  under its column every text comes back exactly as it was (commas, double quotes, line
  feeds and carriage returns included), a null and a missing key come back as the empty
  field, and a number comes back in decimal, followed by \<^verbatim>\<open>.0\<close> exactly when its column
  holds no text and some record is null there or lacks the key.
\<close>

theorem C3_csv_round_trip:
  assumes "\<not> refused fs p" and "small_numbers data"
  shows "\<exists>out. files (fst (CSVWriterTool_run to_csv_values fs data p)) p = Some out \<and>
           csv_parse out =
             columns (DataFrame data) #
             map (\<lambda>r. map (\<lambda>k. value_text (dtype_of (map (\<lambda>r'. map_of r' k) data)) (map_of r k))
                         (columns (DataFrame data))) data \<and>
           (\<forall>i k v. i < length data \<and> distinct (map fst (data ! i)) \<and> (k, v) \<in> set (data ! i) \<longrightarrow>
              (\<exists>j<length (columns (DataFrame data)).
                 csv_parse out ! 0 ! j = k \<and>
                 csv_parse out ! Suc i ! j =
                   (case v of
                      Text s \<Rightarrow> s
                    | Null \<Rightarrow> []
                    | Number n \<Rightarrow>
                        if (\<exists>r\<in>set data. map_of r k = None \<or> map_of r k = Some Null) \<and>
                           (\<forall>r\<in>set data. \<forall>s. map_of r k \<noteq> Some (Text s))
                        then str_int n @ ''.0'' else str_int n)))"
proof -
  let ?cols = "columns (DataFrame data)"
  let ?out = "to_csv_values (DataFrame data)"
  have written: "files (fst (CSVWriterTool_run to_csv_values fs data p)) p = Some ?out"
    using assms(1) by (simp add: CSVWriterTool_run_files)
  have parsed: "csv_parse ?out =
      ?cols # map (\<lambda>r. map (\<lambda>k. value_text (dtype_of (map (\<lambda>r'. map_of r' k) data)) (map_of r k)) ?cols) data"
    by (rule csv_parse_to_csv_values)
  have cells: "\<forall>i k v. i < length data \<and> distinct (map fst (data ! i)) \<and> (k, v) \<in> set (data ! i) \<longrightarrow>
              (\<exists>j<length ?cols.
                 csv_parse ?out ! 0 ! j = k \<and>
                 csv_parse ?out ! Suc i ! j =
                   (case v of
                      Text s \<Rightarrow> s
                    | Null \<Rightarrow> []
                    | Number n \<Rightarrow>
                        if (\<exists>r\<in>set data. map_of r k = None \<or> map_of r k = Some Null) \<and>
                           (\<forall>r\<in>set data. \<forall>s. map_of r k \<noteq> Some (Text s))
                        then str_int n @ ''.0'' else str_int n))"
  proof (intro allI impI, elim conjE)
    fix i k v
    assume i: "i < length data" and d: "distinct (map fst (data ! i))" and kv: "(k, v) \<in> set (data ! i)"
    from i kv obtain j where j: "j < length ?cols" "?cols ! j = k"
      using column_of_key [of "data ! i" data k v] by auto
    have look: "map_of (data ! i) k = Some v"
      using d kv by simp
    have cell: "csv_parse ?out ! Suc i ! j = value_text (dtype_of (map (\<lambda>r'. map_of r' k) data)) (Some v)"
      using i j look by (simp add: parsed)
    have head: "csv_parse ?out ! 0 ! j = k"
      using j by (simp add: parsed)
    have "value_text (dtype_of (map (\<lambda>r'. map_of r' k) data)) (Some v) =
          (case v of
             Text s \<Rightarrow> s
           | Null \<Rightarrow> []
           | Number n \<Rightarrow>
               if (\<exists>r\<in>set data. map_of r k = None \<or> map_of r k = Some Null) \<and>
                  (\<forall>r\<in>set data. \<forall>s. map_of r k \<noteq> Some (Text s))
               then str_int n @ ''.0'' else str_int n)"
    proof (cases v)
      case (Number n)
      have here: "data ! i \<in> set data" using i by simp
      have "is_number (map_of (data ! i) k)"
        by (simp add: look Number is_number_def)
      with here have num: "list_ex is_number (map (\<lambda>r'. map_of r' k) data)"
        by (auto simp: list_ex_iff)
      have all: "list_all (\<lambda>c. is_number c \<or> is_null c) (map (\<lambda>r'. map_of r' k) data) =
                 (\<forall>r\<in>set data. \<forall>s. map_of r k \<noteq> Some (Text s))"
      proof -
        have "(is_number c \<or> is_null c) = (\<forall>s. c \<noteq> Some (Text s))" for c
        proof (cases c)
          case None
          then show ?thesis by (simp add: is_null_def)
        next
          case (Some x)
          then show ?thesis by (cases x) (simp_all add: is_number_def is_null_def)
        qed
        then show ?thesis by (simp add: list_all_iff)
      qed
      have nul: "list_ex is_null (map (\<lambda>r'. map_of r' k) data) =
                 (\<exists>r\<in>set data. map_of r k = None \<or> map_of r k = Some Null)"
        by (simp add: list_ex_iff is_null_def)
      show ?thesis
        using num by (auto simp: Number value_text_def dtype_of_def all nul)
    qed (simp_all add: value_text_def)
    with cell head j show "\<exists>j<length ?cols.
                 csv_parse ?out ! 0 ! j = k \<and>
                 csv_parse ?out ! Suc i ! j =
                   (case v of
                      Text s \<Rightarrow> s
                    | Null \<Rightarrow> []
                    | Number n \<Rightarrow>
                        if (\<exists>r\<in>set data. map_of r k = None \<or> map_of r k = Some Null) \<and>
                           (\<forall>r\<in>set data. \<forall>s. map_of r k \<noteq> Some (Text s))
                        then str_int n @ ''.0'' else str_int n)"
      by auto
  qed
  from written parsed cells show ?thesis by blast
qed

theorem C3_csv_round_trip_witness:
  "\<not> refused empty_fs ''out.csv'' \<and> small_numbers mixed_record \<and>
   (\<exists>out. files (fst (CSVWriterTool_run to_csv_values empty_fs mixed_record ''out.csv'')) ''out.csv'' = Some out \<and>
      csv_parse out =
        [[''name'', ''ports'', ''stars''],
         [''Router, '' @ [CHR 0x22] @ ''dual'' @ [CHR 0x22, CHR 0x0A] @ ''band'', ''4.0'', ''5''],
         [[], [], ''3'']])"
proof -
  have h: "\<not> refused empty_fs ''out.csv''"
    by (simp add: empty_fs_def)
  have d: "mixed_record =
     [[(''name'', Text (''Router, '' @ [CHR 0x22] @ ''dual'' @ [CHR 0x22, CHR 0x0A] @ ''band'')),
       (''ports'', Number 4), (''stars'', Number 5)],
      [(''name'', Null), (''stars'', Number 3)]]"
    by (simp add: mixed_record_def)
  have s: "small_numbers mixed_record"
    by (simp add: d small_numbers_def)
  have cols: "columns (DataFrame mixed_record) = [''name'', ''ports'', ''stars'']"
    by (simp add: columns_DataFrame first_seen_def d)
  have n: "str_int 3 = ''3''" "str_int 4 = ''4''" "str_int 5 = ''5''"
    by (simp_all add: str_int_def str_nat.simps)
  obtain out where t: "files (fst (CSVWriterTool_run to_csv_values empty_fs mixed_record ''out.csv'')) ''out.csv'' = Some out"
    and p: "csv_parse out =
             columns (DataFrame mixed_record) #
             map (\<lambda>r. map (\<lambda>k. value_text (dtype_of (map (\<lambda>r'. map_of r' k) mixed_record)) (map_of r k))
                         (columns (DataFrame mixed_record))) mixed_record"
    using C3_csv_round_trip [OF h s] by blast
  have "csv_parse out =
        [[''name'', ''ports'', ''stars''],
         [''Router, '' @ [CHR 0x22] @ ''dual'' @ [CHR 0x22, CHR 0x0A] @ ''band'', ''4.0'', ''5''],
         [[], [], ''3'']]"
    unfolding p cols by (simp add: d dtype_of_def is_number_def is_null_def value_text_def n)
  with t h s show ?thesis by blast
qed

end
